theory Spec2Isabelle
  imports Complex_Main
begin

section \<open>Data model of \<open>backend/propagate.py\<close>\<close>

text \<open>
  Python floats are modelled as exact reals: every statement below is about the arithmetic
  the code writes down, not about its IEEE rounding. A \<open>datetime\<close> is the real number of
  seconds it denotes; \<open>isoformat()\<close> renders a datetime as a string, kept here as the
  datetime it renders.
\<close>

datatype py_error = ValueError | ZeroDivisionError

datatype iso_string = Isoformat real

text \<open>The dict appended to \<open>obj["risk_objects"]\<close>.\<close>

record risk_data =
  object_id :: string
  distance_km :: real
  velocity_kmps :: real
  time_to_conjunction :: real
  risk_level :: string

text \<open>One entry of \<open>self.space_objects\<close> (keys \<open>id\<close> and \<open>type\<close> renamed).\<close>

record space_object =
  obj_id :: string
  name :: string
  obj_type :: string
  orbit_type :: string
  altitude :: real
  inclination :: real
  position :: "real list"
  velocity :: real
  last_update :: real
  risk_objects :: "risk_data list"

text \<open>
  The f-string of \<open>_generate_alert\<close> interpolates two names and two floats into a fixed
  text; the message is kept as these four values.
\<close>

datatype message = Potential_collision string string real real

record alert =
  alert_id :: int
  timestamp :: iso_string
  severity :: string
  message :: message
  object_ids :: "string list"

text \<open>
  What the program reads from outside: the \<open>k\<close>-th call of \<open>datetime.now()\<close> returns
  \<open>clock w k\<close>, the \<open>k\<close>-th call of \<open>random.gauss(0, 0.001)\<close> returns \<open>gauss w k\<close>, the
  \<open>k\<close>-th call of \<open>random.uniform(a, b)\<close> returns \<open>a + (b - a) * uniform01 w k\<close>, and
  the \<open>k\<close>-th \<open>send_json\<close> of the broadcast loop raises iff \<open>send_raises w k\<close>.
\<close>

record world =
  clock :: "nat \<Rightarrow> real"
  gauss :: "nat \<Rightarrow> real"
  uniform01 :: "nat \<Rightarrow> real"
  send_raises :: "nat \<Rightarrow> bool"

text \<open>
  The attributes of \<open>OrbitPropagator\<close>, and the number of clock and Gaussian readings
  consumed so far.
\<close>

record propagator =
  space_objects :: "space_object list"
  alerts :: "alert list"
  last_alert_time :: real
  now_calls :: nat
  gauss_calls :: nat

definition EARTH_RADIUS :: real where
  "EARTH_RADIUS = 6371"

definition now :: "world \<Rightarrow> propagator \<Rightarrow> real \<times> propagator" where
  "now w s = (clock w (now_calls s), s\<lparr>now_calls := Suc (now_calls s)\<rparr>)"

section \<open>Geometry\<close>

text \<open>\<open>math.atan2(y, x)\<close> on reals (signed zeros are outside the model).\<close>

definition atan2 :: "real \<Rightarrow> real \<Rightarrow> real" where
  "atan2 y x =
     (if 0 < x then arctan (y / x)
      else if x < 0 \<and> 0 \<le> y then arctan (y / x) + pi
      else if x < 0 then arctan (y / x) - pi
      else if 0 < y then pi / 2
      else if y < 0 then - (pi / 2)
      else 0)"

definition random_position :: "world \<Rightarrow> nat \<Rightarrow> real \<Rightarrow> real list" where
  "random_position w k alt =
     (let radius = EARTH_RADIUS + alt;
          theta = 0 + (2 * pi - 0) * uniform01 w k;
          phi = 0 + (pi - 0) * uniform01 w (Suc k);
          x = radius * sin phi * cos theta;
          y = radius * sin phi * sin theta;
          z = radius * cos phi
      in [x, y, z])"

text \<open>
  \<open>_update_position\<close>, with the Gaussian sample \<open>g\<close> drawn in the call as an argument.
  The unpacking \<open>x, y, z = obj["position"]\<close> raises ValueError on any other length,
  \<open>z / r\<close> and \<open>2 * math.pi / orbital_period\<close> raise ZeroDivisionError on a zero divisor,
  \<open>math.acos\<close> and \<open>math.sqrt\<close> raise ValueError outside their domains.
\<close>

definition update_position :: "real \<Rightarrow> space_object \<Rightarrow> real \<Rightarrow> py_error + space_object" where
  "update_position g obj dt =
     (case position obj of
        [x, y, z] \<Rightarrow>
          (let r = sqrt (x\<^sup>2 + y\<^sup>2 + z\<^sup>2);
               theta = atan2 y x
           in if r = 0 then Inl ZeroDivisionError
              else if z / r < - 1 \<or> 1 < z / r then Inl ValueError
              else
                (let phi = arccos (z / r);
                     orbital_radius = EARTH_RADIUS + altitude obj
                 in if orbital_radius ^ 3 / 398600.4418 < 0 then Inl ValueError
                    else
                      (let orbital_period = 2 * pi * sqrt (orbital_radius ^ 3 / 398600.4418)
                       in if orbital_period = 0 then Inl ZeroDivisionError
                          else
                            (let angular_velocity = 2 * pi / orbital_period;
                                 theta' = theta + angular_velocity * dt;
                                 phi' = phi + (0 + 0.001 * g);
                                 x' = r * sin phi' * cos theta';
                                 y' = r * sin phi' * sin theta';
                                 z' = r * cos phi'
                             in Inr (obj\<lparr>position := [x', y', z']\<rparr>)))))
      | _ \<Rightarrow> Inl ValueError)"

definition calculate_distance :: "real list \<Rightarrow> real list \<Rightarrow> real" where
  "calculate_distance pos1 pos2 = sqrt (sum_list (map (\<lambda>(a, b). (a - b)\<^sup>2) (zip pos1 pos2)))"

section \<open>Risk classification and alerts\<close>

definition calculate_risk_level :: "real \<Rightarrow> real \<Rightarrow> string" where
  "calculate_risk_level distance ttc =
     (if distance < 20 \<and> ttc < 2 then ''High''
      else if distance < 50 \<and> ttc < 12 then ''Medium''
      else ''Low'')"

text \<open>The slice \<open>xs[-n:]\<close> for a positive \<open>n\<close>.\<close>

definition last_n :: "nat \<Rightarrow> 'a list \<Rightarrow> 'a list" where
  "last_n n xs = drop (length xs - n) xs"

definition generate_alert ::
  "world \<Rightarrow> space_object \<Rightarrow> space_object \<Rightarrow> real \<Rightarrow> real \<Rightarrow> propagator \<Rightarrow> propagator" where
  "generate_alert w obj1 obj2 distance ttc s =
     (let n = int (length (alerts s)) + 1;
          (t, s1) = now w s;
          alert = \<lparr>alert_id = n,
                   timestamp = Isoformat t,
                   severity = ''high'',
                   message = Potential_collision (name obj1) (name obj2) distance ttc,
                   object_ids = [obj_id obj1, obj_id obj2]\<rparr>;
          s2 = s1\<lparr>alerts := alerts s1 @ [alert]\<rparr>
      in if length (alerts s2) > 100 then s2\<lparr>alerts := last_n 100 (alerts s2)\<rparr> else s2)"

section \<open>Conjunction detection\<close>

text \<open>
  The body of the two nested loops of \<open>_check_conjunctions\<close> for the pair of indices
  \<open>(i, j)\<close>. The two appends mutate the dicts in place, so the second reads the list
  after the first.
\<close>

definition check_pair :: "world \<Rightarrow> nat \<Rightarrow> nat \<Rightarrow> propagator \<Rightarrow> propagator" where
  "check_pair w i j s =
     (let obj1 = space_objects s ! i;
          obj2 = space_objects s ! j;
          distance = calculate_distance (position obj1) (position obj2);
          rel_velocity = \<bar>velocity obj1 - velocity obj2\<bar>;
          ttc = max 0.1 (distance / (rel_velocity + 0.001))
      in if distance < 100 then
           (let risk_data1 = \<lparr>object_id = obj_id obj2,
                               distance_km = distance,
                               velocity_kmps = rel_velocity,
                               time_to_conjunction = ttc,
                               risk_level = calculate_risk_level distance ttc\<rparr>;
                objs1 = (space_objects s)
                  [i := (space_objects s ! i)
                     \<lparr>risk_objects := risk_objects (space_objects s ! i) @ [risk_data1]\<rparr>];
                risk_data2 = \<lparr>object_id = obj_id obj1,
                               distance_km = distance,
                               velocity_kmps = rel_velocity,
                               time_to_conjunction = ttc,
                               risk_level = calculate_risk_level distance ttc\<rparr>;
                objs2 = objs1
                  [j := (objs1 ! j)\<lparr>risk_objects := risk_objects (objs1 ! j) @ [risk_data2]\<rparr>];
                (current_time, s1) = now w (s\<lparr>space_objects := objs2\<rparr>)
            in if risk_level risk_data2 = ''High'' \<and> current_time - last_alert_time s1 > 10
               then (generate_alert w obj1 obj2 distance ttc s1)\<lparr>last_alert_time := current_time\<rparr>
               else s1)
         else s)"

definition check_conjunctions :: "world \<Rightarrow> propagator \<Rightarrow> propagator" where
  "check_conjunctions w s =
     (let s0 = s\<lparr>space_objects := map (\<lambda>obj. obj\<lparr>risk_objects := []\<rparr>) (space_objects s)\<rparr>;
          n = length (space_objects s0)
      in fold (\<lambda>i. fold (check_pair w i) [Suc i..<n]) [0..<n] s0)"

section \<open>The public operations\<close>

text \<open>The dict built by \<open>get_objects\<close> and \<open>get_object_by_id\<close>.\<close>

record serialized_obj =
  ser_id :: string
  ser_name :: string
  ser_type :: string
  ser_orbit_type :: string
  ser_altitude :: real
  ser_inclination :: real
  ser_position :: "real list"
  ser_velocity :: real
  ser_last_update :: iso_string
  ser_risk_objects :: "risk_data list"

definition serialize :: "space_object \<Rightarrow> serialized_obj" where
  "serialize obj =
     \<lparr>ser_id = obj_id obj,
      ser_name = name obj,
      ser_type = obj_type obj,
      ser_orbit_type = orbit_type obj,
      ser_altitude = altitude obj,
      ser_inclination = inclination obj,
      ser_position = position obj,
      ser_velocity = velocity obj,
      ser_last_update = Isoformat (last_update obj),
      ser_risk_objects = risk_objects obj\<rparr>"

definition get_objects :: "propagator \<Rightarrow> serialized_obj list" where
  "get_objects s = map serialize (space_objects s)"

definition get_alerts :: "propagator \<Rightarrow> alert list" where
  "get_alerts s = alerts s"

fun find_by_id :: "space_object list \<Rightarrow> string \<Rightarrow> serialized_obj option" where
  "find_by_id [] oid = None"
| "find_by_id (obj # objs) oid =
     (if obj_id obj = oid then Some (serialize obj) else find_by_id objs oid)"

definition get_object_by_id :: "propagator \<Rightarrow> string \<Rightarrow> serialized_obj option" where
  "get_object_by_id s oid = find_by_id (space_objects s) oid"

text \<open>
  The first loop of \<open>update\<close>, over the indices \<open>ks\<close> of the catalog: an exception of
  \<open>_update_position\<close> leaves the loop and the call.
\<close>

fun update_positions :: "world \<Rightarrow> real \<Rightarrow> nat list \<Rightarrow> propagator \<Rightarrow> py_error + propagator" where
  "update_positions w dt [] s = Inr s"
| "update_positions w dt (k # ks) s =
     (case update_position (gauss w (gauss_calls s)) (space_objects s ! k) dt of
        Inl e \<Rightarrow> Inl e
      | Inr obj \<Rightarrow>
          (let (t, s1) = now w (s\<lparr>space_objects := (space_objects s)[k := obj],
                                   gauss_calls := Suc (gauss_calls s)\<rparr>)
           in update_positions w dt ks
                (s1\<lparr>space_objects := (space_objects s1)
                      [k := (space_objects s1 ! k)\<lparr>last_update := t\<rparr>]\<rparr>)))"

definition update ::
  "world \<Rightarrow> real \<Rightarrow> propagator \<Rightarrow> py_error + propagator \<times> serialized_obj list \<times> alert list" where
  "update w dt s =
     (case update_positions w dt [0..<length (space_objects s)] s of
        Inl e \<Rightarrow> Inl e
      | Inr s1 \<Rightarrow> (let s2 = check_conjunctions w s1 in Inr (s2, get_objects s2, get_alerts s2)))"

text \<open>\<open>OrbitPropagator.__init__\<close>: the dict literals are evaluated in order.\<close>

definition init :: "world \<Rightarrow> propagator" where
  "init w =
     \<lparr>space_objects =
        [\<lparr>obj_id = ''25544'', name = ''ISS (ZARYA)'', obj_type = ''satellite'',
          orbit_type = ''LEO'', altitude = 408, inclination = 51.6,
          position = random_position w 0 408, velocity = 7.66,
          last_update = clock w 0, risk_objects = []\<rparr>,
         \<lparr>obj_id = ''48274'', name = ''COSMOS 2251 DEB'', obj_type = ''debris'',
          orbit_type = ''LEO'', altitude = 385, inclination = 74.2,
          position = random_position w 2 385, velocity = 7.7,
          last_update = clock w 1, risk_objects = []\<rparr>,
         \<lparr>obj_id = ''33692'', name = ''FENGYUN 1C DEB'', obj_type = ''debris'',
          orbit_type = ''LEO'', altitude = 420, inclination = 98.5,
          position = random_position w 4 420, velocity = 7.62,
          last_update = clock w 2, risk_objects = []\<rparr>],
      alerts = [],
      last_alert_time = clock w 3 - 300,
      now_calls = 4,
      gauss_calls = 0\<rparr>"

text \<open>Any number of calls of \<open>update\<close>, one per time step of \<open>dts\<close>.\<close>

fun ticks :: "world \<Rightarrow> real list \<Rightarrow> propagator \<Rightarrow> py_error + propagator" where
  "ticks w [] s = Inr s"
| "ticks w (dt # dts) s =
     (case update w dt s of Inl e \<Rightarrow> Inl e | Inr (s1, objs, als) \<Rightarrow> ticks w dts s1)"

section \<open>\<open>backend/main.py\<close>\<close>

datatype http_error = HTTPException nat string

definition get_object :: "propagator \<Rightarrow> string \<Rightarrow> http_error + serialized_obj" where
  "get_object s oid =
     (case get_object_by_id s oid of
        None \<Rightarrow> Inl (HTTPException 404 ''Object not found'')
      | Some obj \<Rightarrow> Inr obj)"

text \<open>
  The process state of \<open>main.py\<close>: the singleton propagator, the list of connected
  websockets (named by numbers), the records written by \<open>logger.error\<close>, and the number
  of \<open>send_json\<close> calls made by the broadcast loop.
\<close>

record server =
  the_propagator :: propagator
  connected_clients :: "nat list"
  error_log :: "string list"
  send_calls :: nat

text \<open>
  The loop over \<open>connected_clients.copy()\<close>: a failed send is logged and the client
  removed; \<open>remove\<close> of a client that is no longer there raises ValueError, which is
  passed over.
\<close>

fun send_to_clients :: "world \<Rightarrow> nat list \<Rightarrow> server \<Rightarrow> server" where
  "send_to_clients w [] sv = sv"
| "send_to_clients w (client # clients) sv =
     (let sv1 = sv\<lparr>send_calls := Suc (send_calls sv)\<rparr>
      in if send_raises w (send_calls sv)
         then send_to_clients w clients
                (sv1\<lparr>error_log := error_log sv1 @ [''Error sending to client''],
                     connected_clients := remove1 client (connected_clients sv1)\<rparr>)
         else send_to_clients w clients sv1)"

text \<open>
  \<open>update_orbits_task\<close>: the first argument bounds the number of iterations of
  \<open>while True\<close> that are run. \<open>Inl e\<close>: the exception \<open>e\<close> left the loop and ended the
  task. \<open>Inr sv\<close>: the loop is still running, in state \<open>sv\<close>, after that many iterations.
\<close>

fun update_orbits_task :: "world \<Rightarrow> nat \<Rightarrow> server \<Rightarrow> py_error + server" where
  "update_orbits_task w 0 sv = Inr sv"
| "update_orbits_task w (Suc n) sv =
     (case update w 60 (the_propagator sv) of
        Inl e \<Rightarrow> Inl e
      | Inr (p, objs, als) \<Rightarrow>
          (let sv1 = sv\<lparr>the_propagator := p\<rparr>
           in update_orbits_task w n
                (if connected_clients sv1 \<noteq> []
                 then send_to_clients w (connected_clients sv1) sv1
                 else sv1)))"

section \<open>Notions used in the statements\<close>

text \<open>The Euclidean magnitude of a position vector.\<close>

definition magnitude :: "real list \<Rightarrow> real" where
  "magnitude pos = sqrt (sum_list (map (\<lambda>a. a\<^sup>2) pos))"

text \<open>
  An object is on its orbit when its position has three components and lies at
  \<open>EARTH_RADIUS + altitude\<close> from the origin, a positive distance.
\<close>

definition on_orbit :: "space_object \<Rightarrow> bool" where
  "on_orbit obj \<longleftrightarrow>
     length (position obj) = 3 \<and> 0 < EARTH_RADIUS + altitude obj \<and>
     magnitude (position obj) = EARTH_RADIUS + altitude obj"

text \<open>An object with its risk list cleared, as the first loop of \<open>_check_conjunctions\<close> leaves it.\<close>

definition without_risk :: "space_object \<Rightarrow> space_object" where
  "without_risk obj = obj\<lparr>risk_objects := []\<rparr>"

text \<open>
  The pairs of indices in the order the nested loops of \<open>_check_conjunctions\<close> visit them,
  and the loop body run over a list of pairs.
\<close>

definition pairs :: "nat \<Rightarrow> (nat \<times> nat) list" where
  "pairs n = concat (map (\<lambda>i. map (Pair i) [Suc i..<n]) [0..<n])"

definition check_pairs :: "world \<Rightarrow> (nat \<times> nat) list \<Rightarrow> propagator \<Rightarrow> propagator" where
  "check_pairs w ps s = fold (\<lambda>(i, j). check_pair w i j) ps s"

text \<open>
  The risk dict that \<open>_check_conjunctions\<close> builds for the pair \<open>(obj1, obj2)\<close> under the
  key \<open>object_id = peer\<close>, the 100 km test, and what the pair \<open>p\<close> appends to the risk
  list of the object at index \<open>k\<close>.
\<close>

definition pair_entry :: "space_object \<Rightarrow> space_object \<Rightarrow> string \<Rightarrow> risk_data" where
  "pair_entry obj1 obj2 peer =
     (let distance = calculate_distance (position obj1) (position obj2);
          rel_velocity = \<bar>velocity obj1 - velocity obj2\<bar>;
          ttc = max 0.1 (distance / (rel_velocity + 0.001))
      in \<lparr>object_id = peer, distance_km = distance, velocity_kmps = rel_velocity,
          time_to_conjunction = ttc, risk_level = calculate_risk_level distance ttc\<rparr>)"

definition within_threshold :: "space_object \<Rightarrow> space_object \<Rightarrow> bool" where
  "within_threshold obj1 obj2 \<longleftrightarrow> calculate_distance (position obj1) (position obj2) < 100"

definition contrib :: "space_object list \<Rightarrow> nat \<Rightarrow> nat \<times> nat \<Rightarrow> risk_data list" where
  "contrib objs k p =
     (case p of (i, j) \<Rightarrow>
        if within_threshold (objs ! i) (objs ! j)
        then (if k = i then [pair_entry (objs ! i) (objs ! j) (obj_id (objs ! j))] else []) @
             (if k = j then [pair_entry (objs ! i) (objs ! j) (obj_id (objs ! i))] else [])
        else [])"

text \<open>The alert dict that \<open>_generate_alert\<close> builds when called in state \<open>s\<close>.\<close>

definition new_alert ::
  "world \<Rightarrow> space_object \<Rightarrow> space_object \<Rightarrow> real \<Rightarrow> real \<Rightarrow> propagator \<Rightarrow> alert" where
  "new_alert w obj1 obj2 distance ttc s =
     \<lparr>alert_id = int (length (alerts s)) + 1,
      timestamp = Isoformat (clock w (now_calls s)),
      severity = ''high'',
      message = Potential_collision (name obj1) (name obj2) distance ttc,
      object_ids = [obj_id obj1, obj_id obj2]\<rparr>"

text \<open>
  The condition under which the loop body for the pair \<open>(i, j)\<close> calls \<open>_generate_alert\<close>
  in state \<open>s\<close>, and the alert it then appends. The cooldown check reads the clock at
  \<open>now_calls s\<close>; the alert's timestamp is the next reading.
\<close>

definition alert_due :: "world \<Rightarrow> nat \<Rightarrow> nat \<Rightarrow> propagator \<Rightarrow> bool" where
  "alert_due w i j s \<longleftrightarrow>
     within_threshold (space_objects s ! i) (space_objects s ! j) \<and>
     risk_level (pair_entry (space_objects s ! i) (space_objects s ! j) []) = ''High'' \<and>
     clock w (now_calls s) - last_alert_time s > 10"

definition pair_alert :: "world \<Rightarrow> nat \<Rightarrow> nat \<Rightarrow> propagator \<Rightarrow> alert" where
  "pair_alert w i j s =
     (let obj1 = space_objects s ! i; obj2 = space_objects s ! j
      in \<lparr>alert_id = int (length (alerts s)) + 1,
          timestamp = Isoformat (clock w (Suc (now_calls s))),
          severity = ''high'',
          message = Potential_collision (name obj1) (name obj2)
            (distance_km (pair_entry obj1 obj2 [])) (time_to_conjunction (pair_entry obj1 obj2 [])),
          object_ids = [obj_id obj1, obj_id obj2]\<rparr>)"

text \<open>The fields of an object that no operation changes: id, name and kind.\<close>

definition identity_fields :: "space_object \<Rightarrow> string \<times> string \<times> string" where
  "identity_fields obj = (obj_id obj, name obj, obj_type obj)"

text \<open>
  A pair is High-risk when it is within the threshold and classified High. An event
  records one evaluation of a High-risk pair by the loop body: the index of the clock
  reading used for the cooldown check, and the alert appended, or None when the cooldown
  suppressed it. The events of a list of pairs, of one \<open>update\<close> and of a sequence of
  \<open>update\<close> calls are collected along the execution itself.
\<close>

definition high_risk :: "space_object \<Rightarrow> space_object \<Rightarrow> bool" where
  "high_risk obj1 obj2 \<longleftrightarrow>
     within_threshold obj1 obj2 \<and> risk_level (pair_entry obj1 obj2 []) = ''High''"

type_synonym event = "nat \<times> alert option"

fun pair_events :: "world \<Rightarrow> (nat \<times> nat) list \<Rightarrow> propagator \<Rightarrow> event list" where
  "pair_events w [] s = []"
| "pair_events w ((i, j) # ps) s =
     (if high_risk (space_objects s ! i) (space_objects s ! j)
      then [(now_calls s, if alert_due w i j s then Some (pair_alert w i j s) else None)]
      else []) @
     pair_events w ps (check_pair w i j s)"

definition tick_events :: "world \<Rightarrow> real \<Rightarrow> propagator \<Rightarrow> event list" where
  "tick_events w dt s =
     (case update_positions w dt [0..<length (space_objects s)] s of
        Inl e \<Rightarrow> []
      | Inr s1 \<Rightarrow>
          pair_events w (pairs (length (space_objects s1)))
            (s1\<lparr>space_objects := map without_risk (space_objects s1)\<rparr>))"

fun run_events :: "world \<Rightarrow> real list \<Rightarrow> propagator \<Rightarrow> event list" where
  "run_events w [] s = []"
| "run_events w (dt # dts) s =
     tick_events w dt s @
     (case update w dt s of Inl e \<Rightarrow> [] | Inr (s1, objs, als) \<Rightarrow> run_events w dts s1)"

text \<open>
  The alerts emitted by a list of events and the clock readings of their cooldown checks;
  \<open>spaced w t ks\<close>: each reading of \<open>ks\<close> is more than 10 s after the one before, the
  first more than 10 s after \<open>t\<close>.
\<close>

definition emitted :: "event list \<Rightarrow> alert list" where
  "emitted evs = List.map_filter snd evs"

definition check_reads :: "event list \<Rightarrow> nat list" where
  "check_reads evs = map fst (filter (\<lambda>e. snd e \<noteq> None) evs)"

fun spaced :: "world \<Rightarrow> real \<Rightarrow> nat list \<Rightarrow> bool" where
  "spaced w t [] = True"
| "spaced w t (k # ks) = (t + 10 < clock w k \<and> spaced w (clock w k) ks)"

definition final_time :: "world \<Rightarrow> real \<Rightarrow> nat list \<Rightarrow> real" where
  "final_time w t ks = (if ks = [] then t else clock w (last ks))"

text \<open>
  No alert has been emitted yet: \<open>last_alert_time\<close> is still a clock reading of the past
  minus five minutes, as \<open>__init__\<close> sets it.
\<close>

definition fresh :: "world \<Rightarrow> propagator \<Rightarrow> bool" where
  "fresh w s \<longleftrightarrow> (\<exists>k\<le>now_calls s. last_alert_time s = clock w k - 300)"

text \<open>A catalog of two objects at the same place, one at 7.66 km/s and one at 7.7 km/s.\<close>

definition twins :: "propagator \<Rightarrow> bool" where
  "twins s \<longleftrightarrow>
     (\<exists>a b. space_objects s = [a, b] \<and> position a = position b \<and> altitude a = altitude b \<and>
        on_orbit a \<and> velocity a = 7.66 \<and> velocity b = 7.7)"

text \<open>
  The two fields of an object that the detection pass reads besides the position, and that no
  operation writes.
\<close>

definition orbit_fields :: "space_object \<Rightarrow> real \<times> real" where
  "orbit_fields obj = (altitude obj, velocity obj)"

text \<open>
  A catalog whose objects are on their orbits and pairwise so far apart in altitude that the
  time to conjunction \<open>distance / (rel_velocity + 0.001)\<close> cannot fall below 2.
\<close>

definition calm :: "space_object list \<Rightarrow> bool" where
  "calm objs \<longleftrightarrow>
     list_all on_orbit objs \<and>
     (\<forall>i j. i < j \<and> j < length objs \<longrightarrow>
        2 * (\<bar>velocity (objs ! i) - velocity (objs ! j)\<bar> + 0.001) \<le>
        \<bar>altitude (objs ! i) - altitude (objs ! j)\<bar>)"

section \<open>Example inputs\<close>

definition quiet_world :: world where
  "quiet_world = \<lparr>clock = (\<lambda>k. real k), gauss = (\<lambda>k. 0), uniform01 = (\<lambda>k. 0),
                   send_raises = (\<lambda>k. False)\<rparr>"

definition example_object :: "string \<Rightarrow> real list \<Rightarrow> real \<Rightarrow> space_object" where
  "example_object i p v =
     \<lparr>obj_id = i, name = i, obj_type = ''debris'', orbit_type = ''LEO'', altitude = 408,
      inclination = 51.6, position = p, velocity = v, last_update = 0, risk_objects = []\<rparr>"

definition example_state :: "space_object list \<Rightarrow> propagator" where
  "example_state objs =
     \<lparr>space_objects = objs, alerts = [], last_alert_time = - 300, now_calls = 0,
      gauss_calls = 0\<rparr>"

text \<open>Two objects at the same place with different speeds.\<close>

definition object_A :: space_object where
  "object_A = example_object ''A'' [6779, 0, 0] 7.66"

definition object_B :: space_object where
  "object_B = example_object ''B'' [6779, 0, 0] 7.7"

text \<open>
  A world in which every other \<open>send_json\<close> raises, a server whose only object sits at the
  origin, and a server on the catalog of \<open>__init__\<close>; each with two connected clients.
\<close>

definition flaky_world :: world where
  "flaky_world = \<lparr>clock = (\<lambda>k. real k), gauss = (\<lambda>k. 0), uniform01 = (\<lambda>k. 0),
                   send_raises = (\<lambda>k. even k)\<rparr>"

definition broken_server :: server where
  "broken_server =
     \<lparr>the_propagator = example_state [example_object ''A'' [0, 0, 0] 7.66],
      connected_clients = [1, 2], error_log = [], send_calls = 0\<rparr>"

definition running_server :: "world \<Rightarrow> server" where
  "running_server w =
     \<lparr>the_propagator = init w, connected_clients = [1, 2], error_log = [], send_calls = 0\<rparr>"

text \<open>
  A clock given by the list of its readings, and a world in which 1 ms passes between the
  cooldown check of the first alert and the reading of its timestamp.
\<close>

definition clock_of :: "real list \<Rightarrow> nat \<Rightarrow> real" where
  "clock_of xs k = (if k < length xs then xs ! k else last xs)"

definition slow_stamp_world :: world where
  "slow_stamp_world =
     \<lparr>clock = clock_of [0, 0, 0, 0.001, 5, 5, 10.0005, 10.0006],
      gauss = (\<lambda>k. 0), uniform01 = (\<lambda>k. 0), send_raises = (\<lambda>k. False)\<rparr>"

definition close_pair :: propagator where
  "close_pair = example_state [object_A, object_B]"

text \<open>Two objects exactly 100 km apart, and two objects 5 km apart.\<close>

definition far_pair :: propagator where
  "far_pair = example_state
     [example_object ''A'' [6779, 0, 0] 7.66, example_object ''B'' [6879, 0, 0] 7.7]"

definition near_pair :: propagator where
  "near_pair = example_state
     [example_object ''A'' [6779, 0, 0] 7.66, example_object ''B'' [6782, 4, 0] 7.7]"

section \<open>The operations over a store of list objects\<close>

text \<open>
  Python lists are objects: \<open>get_alerts\<close> returns \<open>self.alerts\<close> itself, and \<open>get_objects\<close>
  puts the values found under \<open>position\<close> and \<open>risk_objects\<close> into the dicts it builds.
  Where a statement depends on which list object is read or written, the operations are
  modelled over a store that maps an address to the list stored there. The dicts of
  \<open>self.space_objects\<close> hold the addresses of their position and risk lists, and
  \<open>self.alerts\<close> is an address. Assigning a new list to a key or to an attribute allocates
  a fresh address; \<open>append\<close> writes to the address in place. The arithmetic is that of the
  definitions above.
\<close>

type_synonym addr = nat

datatype py_list = Floats "real list" | Risks "risk_data list" | Alerts "alert list"

text \<open>An entry of \<open>self.space_objects\<close>, and a dict built by \<open>get_objects\<close>.\<close>

record object_ref =
  ref_id :: string
  ref_name :: string
  ref_type :: string
  ref_orbit_type :: string
  ref_altitude :: real
  ref_inclination :: real
  ref_position :: addr
  ref_velocity :: real
  ref_last_update :: real
  ref_risk_objects :: addr

record serialized_ref =
  sref_id :: string
  sref_name :: string
  sref_type :: string
  sref_orbit_type :: string
  sref_altitude :: real
  sref_inclination :: real
  sref_position :: addr
  sref_velocity :: real
  sref_last_update :: iso_string
  sref_risk_objects :: addr

text \<open>The attributes of \<open>OrbitPropagator\<close>, the store and the next free address.\<close>

record store_state =
  st_objects :: "object_ref list"
  st_alerts :: addr
  st_last_alert_time :: real
  st_now_calls :: nat
  st_gauss_calls :: nat
  store :: "addr \<Rightarrow> py_list option"
  next_addr :: addr

text \<open>Reading a list of floats, of risk dicts or of alerts at an address.\<close>

definition floats_at :: "store_state \<Rightarrow> addr \<Rightarrow> real list" where
  "floats_at st a = (case store st a of Some (Floats xs) \<Rightarrow> xs | _ \<Rightarrow> [])"

definition risks_at :: "store_state \<Rightarrow> addr \<Rightarrow> risk_data list" where
  "risks_at st a = (case store st a of Some (Risks xs) \<Rightarrow> xs | _ \<Rightarrow> [])"

definition alerts_at :: "store_state \<Rightarrow> addr \<Rightarrow> alert list" where
  "alerts_at st a = (case store st a of Some (Alerts xs) \<Rightarrow> xs | _ \<Rightarrow> [])"

text \<open>The object that a dict of the catalog denotes in a store.\<close>

definition deref :: "store_state \<Rightarrow> object_ref \<Rightarrow> space_object" where
  "deref st obj =
     \<lparr>obj_id = ref_id obj, name = ref_name obj, obj_type = ref_type obj,
      orbit_type = ref_orbit_type obj, altitude = ref_altitude obj,
      inclination = ref_inclination obj, position = floats_at st (ref_position obj),
      velocity = ref_velocity obj, last_update = ref_last_update obj,
      risk_objects = risks_at st (ref_risk_objects obj)\<rparr>"

text \<open>A new list object.\<close>

definition alloc :: "py_list \<Rightarrow> store_state \<Rightarrow> addr \<times> store_state" where
  "alloc v st =
     (next_addr st, st\<lparr>store := (store st)(next_addr st \<mapsto> v), next_addr := Suc (next_addr st)\<rparr>)"

definition now_st :: "world \<Rightarrow> store_state \<Rightarrow> real \<times> store_state" where
  "now_st w st = (clock w (st_now_calls st), st\<lparr>st_now_calls := Suc (st_now_calls st)\<rparr>)"

text \<open>
  \<open>_update_position\<close> on the object at index \<open>k\<close>: the last statement binds \<open>position\<close> to a
  new list.
\<close>

definition update_position_st :: "real \<Rightarrow> nat \<Rightarrow> real \<Rightarrow> store_state \<Rightarrow> py_error + store_state" where
  "update_position_st g k dt st =
     (case update_position g (deref st (st_objects st ! k)) dt of
        Inl e \<Rightarrow> Inl e
      | Inr obj \<Rightarrow>
          (let (a, st1) = alloc (Floats (position obj)) st
           in Inr (st1\<lparr>st_objects := (st_objects st1)
                        [k := (st_objects st1 ! k)\<lparr>ref_position := a\<rparr>]\<rparr>)))"

text \<open>
  \<open>_generate_alert\<close>: \<open>self.alerts.append(alert)\<close> writes to the list in place, and
  \<open>self.alerts = self.alerts[-100:]\<close> binds the attribute to a new list.
\<close>

definition generate_alert_st ::
  "world \<Rightarrow> object_ref \<Rightarrow> object_ref \<Rightarrow> real \<Rightarrow> real \<Rightarrow> store_state \<Rightarrow> store_state" where
  "generate_alert_st w obj1 obj2 distance ttc st =
     (let n = int (length (alerts_at st (st_alerts st))) + 1;
          (t, st1) = now_st w st;
          alert = \<lparr>alert_id = n,
                   timestamp = Isoformat t,
                   severity = ''high'',
                   message = Potential_collision (ref_name obj1) (ref_name obj2) distance ttc,
                   object_ids = [ref_id obj1, ref_id obj2]\<rparr>;
          st2 = st1\<lparr>store := (store st1)
                  (st_alerts st1 \<mapsto> Alerts (alerts_at st1 (st_alerts st1) @ [alert]))\<rparr>
      in if length (alerts_at st2 (st_alerts st2)) > 100
         then (let (a, st3) = alloc (Alerts (last_n 100 (alerts_at st2 (st_alerts st2)))) st2
               in st3\<lparr>st_alerts := a\<rparr>)
         else st2)"

text \<open>\<open>obj["risk_objects"].append(risk_data)\<close>, and the loop body of \<open>_check_conjunctions\<close>.\<close>

definition append_risk :: "addr \<Rightarrow> risk_data \<Rightarrow> store_state \<Rightarrow> store_state" where
  "append_risk a e st = st\<lparr>store := (store st)(a \<mapsto> Risks (risks_at st a @ [e]))\<rparr>"

definition check_pair_st :: "world \<Rightarrow> nat \<Rightarrow> nat \<Rightarrow> store_state \<Rightarrow> store_state" where
  "check_pair_st w i j st =
     (let obj1 = st_objects st ! i;
          obj2 = st_objects st ! j;
          distance = calculate_distance (floats_at st (ref_position obj1))
                       (floats_at st (ref_position obj2));
          rel_velocity = \<bar>ref_velocity obj1 - ref_velocity obj2\<bar>;
          ttc = max 0.1 (distance / (rel_velocity + 0.001))
      in if distance < 100 then
           (let risk_data1 = \<lparr>object_id = ref_id obj2,
                               distance_km = distance,
                               velocity_kmps = rel_velocity,
                               time_to_conjunction = ttc,
                               risk_level = calculate_risk_level distance ttc\<rparr>;
                st1 = append_risk (ref_risk_objects obj1) risk_data1 st;
                risk_data2 = \<lparr>object_id = ref_id obj1,
                               distance_km = distance,
                               velocity_kmps = rel_velocity,
                               time_to_conjunction = ttc,
                               risk_level = calculate_risk_level distance ttc\<rparr>;
                st2 = append_risk (ref_risk_objects obj2) risk_data2 st1;
                (current_time, st3) = now_st w st2
            in if risk_level risk_data2 = ''High'' \<and> current_time - st_last_alert_time st3 > 10
               then (generate_alert_st w obj1 obj2 distance ttc st3)
                      \<lparr>st_last_alert_time := current_time\<rparr>
               else st3)
         else st)"

text \<open>
  The first loop of \<open>_check_conjunctions\<close> binds \<open>risk_objects\<close> of every object to a new
  empty list.
\<close>

fun clear_risks :: "nat list \<Rightarrow> store_state \<Rightarrow> store_state" where
  "clear_risks [] st = st"
| "clear_risks (k # ks) st =
     (let (a, st1) = alloc (Risks []) st
      in clear_risks ks
           (st1\<lparr>st_objects := (st_objects st1)
                  [k := (st_objects st1 ! k)\<lparr>ref_risk_objects := a\<rparr>]\<rparr>))"

definition check_conjunctions_st :: "world \<Rightarrow> store_state \<Rightarrow> store_state" where
  "check_conjunctions_st w st =
     (let n = length (st_objects st);
          st0 = clear_risks [0..<n] st
      in fold (\<lambda>i. fold (check_pair_st w i) [Suc i..<n]) [0..<n] st0)"

text \<open>
  \<open>get_objects\<close> builds new dicts that hold the addresses found in the live dicts, and
  \<open>get_alerts\<close> returns the address in \<open>self.alerts\<close>.
\<close>

definition serialize_ref :: "object_ref \<Rightarrow> serialized_ref" where
  "serialize_ref obj =
     \<lparr>sref_id = ref_id obj,
      sref_name = ref_name obj,
      sref_type = ref_type obj,
      sref_orbit_type = ref_orbit_type obj,
      sref_altitude = ref_altitude obj,
      sref_inclination = ref_inclination obj,
      sref_position = ref_position obj,
      sref_velocity = ref_velocity obj,
      sref_last_update = Isoformat (ref_last_update obj),
      sref_risk_objects = ref_risk_objects obj\<rparr>"

definition get_objects_st :: "store_state \<Rightarrow> serialized_ref list" where
  "get_objects_st st = map serialize_ref (st_objects st)"

definition get_alerts_st :: "store_state \<Rightarrow> addr" where
  "get_alerts_st st = st_alerts st"

fun update_positions_st :: "world \<Rightarrow> real \<Rightarrow> nat list \<Rightarrow> store_state \<Rightarrow> py_error + store_state" where
  "update_positions_st w dt [] st = Inr st"
| "update_positions_st w dt (k # ks) st =
     (case update_position_st (gauss w (st_gauss_calls st)) k dt st of
        Inl e \<Rightarrow> Inl e
      | Inr st1 \<Rightarrow>
          (let (t, st2) = now_st w (st1\<lparr>st_gauss_calls := Suc (st_gauss_calls st1)\<rparr>)
           in update_positions_st w dt ks
                (st2\<lparr>st_objects := (st_objects st2)
                       [k := (st_objects st2 ! k)\<lparr>ref_last_update := t\<rparr>]\<rparr>)))"

definition update_st ::
  "world \<Rightarrow> real \<Rightarrow> store_state \<Rightarrow> py_error + store_state \<times> serialized_ref list \<times> addr" where
  "update_st w dt st =
     (case update_positions_st w dt [0..<length (st_objects st)] st of
        Inl e \<Rightarrow> Inl e
      | Inr st1 \<Rightarrow>
          (let st2 = check_conjunctions_st w st1
           in Inr (st2, get_objects_st st2, get_alerts_st st2)))"

fun ticks_st :: "world \<Rightarrow> real list \<Rightarrow> store_state \<Rightarrow> py_error + store_state" where
  "ticks_st w [] st = Inr st"
| "ticks_st w (dt # dts) st =
     (case update_st w dt st of Inl e \<Rightarrow> Inl e | Inr (st1, objs, als) \<Rightarrow> ticks_st w dts st1)"

text \<open>
  \<open>preserves st st'\<close>: from \<open>st\<close> to \<open>st'\<close> no list allocated in \<open>st\<close> was written, but
  possibly the alert list of \<open>st\<close>. In a well-formed state the live lists are allocated and
  the alert list is none of the position or risk lists.
\<close>

definition preserves :: "store_state \<Rightarrow> store_state \<Rightarrow> bool" where
  "preserves st st' \<longleftrightarrow>
     next_addr st \<le> next_addr st' \<and>
     (st_alerts st' = st_alerts st \<or> next_addr st \<le> st_alerts st') \<and>
     (\<forall>a<next_addr st. a \<noteq> st_alerts st \<longrightarrow> store st' a = store st a)"

definition risk_lists_fresh :: "addr \<Rightarrow> store_state \<Rightarrow> bool" where
  "risk_lists_fresh N st \<longleftrightarrow> (\<forall>k<length (st_objects st). N \<le> ref_risk_objects (st_objects st ! k))"

definition well_formed :: "store_state \<Rightarrow> bool" where
  "well_formed st \<longleftrightarrow>
     st_alerts st < next_addr st \<and>
     (\<forall>obj\<in>set (st_objects st).
        ref_position obj < next_addr st \<and> ref_position obj \<noteq> st_alerts st \<and>
        ref_risk_objects obj < next_addr st \<and> ref_risk_objects obj \<noteq> st_alerts st)"

text \<open>A store with an empty alert list and one object on its orbit.\<close>

definition example_ref :: object_ref where
  "example_ref =
     \<lparr>ref_id = ''A'', ref_name = ''A'', ref_type = ''debris'', ref_orbit_type = ''LEO'',
      ref_altitude = 408, ref_inclination = 51.6, ref_position = 1, ref_velocity = 7.66,
      ref_last_update = 0, ref_risk_objects = 2\<rparr>"

definition example_store :: store_state where
  "example_store =
     \<lparr>st_objects = [example_ref], st_alerts = 0, st_last_alert_time = - 300,
      st_now_calls = 0, st_gauss_calls = 0,
      store = [0 \<mapsto> Alerts [], 1 \<mapsto> Floats [6779, 0, 0], 2 \<mapsto> Risks []],
      next_addr = 3\<rparr>"

section \<open>The alert log\<close>

lemma alerts_generate_alert:
  "alerts (generate_alert w obj1 obj2 d t s) = last_n 100 (alerts s @ [new_alert w obj1 obj2 d t s])"
  by (simp add: generate_alert_def now_def new_alert_def last_n_def Let_def)

lemma length_last_n: "length (last_n n xs) = min n (length xs)"
  by (simp add: last_n_def)

lemma length_alerts_generate_alert:
  "length (alerts (generate_alert w obj1 obj2 d t s)) = min 100 (Suc (length (alerts s)))"
  by (simp add: alerts_generate_alert length_last_n)

lemma last_n_full: "0 < n \<Longrightarrow> length xs = n \<Longrightarrow> last_n n (xs @ [x]) = tl xs @ [x]"
  by (cases xs) (simp_all add: last_n_def)

lemma last_n_short: "length xs < n \<Longrightarrow> last_n n (xs @ [x]) = xs @ [x]"
  by (simp add: last_n_def)

lemma set_last_n: "set (last_n n xs) \<subseteq> set xs"
  by (simp add: last_n_def set_drop_subset)

lemma sqrt_10000: "sqrt 10000 = 100"
  by (rule real_sqrt_unique) simp_all

lemma funpow_len:
  "length (alerts s) \<le> 100 \<Longrightarrow> length (alerts (((generate_alert w obj1 obj2 d t) ^^ n) s)) = min 100 (length (alerts s) + n)"
  by (induction n) (auto simp: length_alerts_generate_alert)

lemma funpow_last_id:
  "length (alerts s) \<le> 100 \<Longrightarrow>
   alert_id (last (alerts (((generate_alert w obj1 obj2 d t) ^^ Suc n) s))) =
     int (min 100 (length (alerts s) + n)) + 1"
  by (simp add: alerts_generate_alert funpow_len last_n_def new_alert_def)

lemma generate_alert_frame:
  "space_objects (generate_alert w a b d t s) = space_objects s"
  "last_alert_time (generate_alert w a b d t s) = last_alert_time s"
  "now_calls (generate_alert w a b d t s) = Suc (now_calls s)"
  "gauss_calls (generate_alert w a b d t s) = gauss_calls s"
  by (simp_all add: generate_alert_def now_def Let_def)

text \<open>
  Claim C6. After every call of \<open>_generate_alert\<close> the log holds at most 100 alerts: it is
  the last 100 entries of the old log followed by the new alert. Below the cap the alert
  is appended; at the cap the oldest entry is dropped and all others are kept in order.
\<close>

theorem alert_log_bounded_fifo:
  "length (alerts (generate_alert w obj1 obj2 d t s)) \<le> 100 \<and>
   alerts (generate_alert w obj1 obj2 d t s) = last_n 100 (alerts s @ [new_alert w obj1 obj2 d t s]) \<and>
   (length (alerts s) < 100 \<longrightarrow>
      alerts (generate_alert w obj1 obj2 d t s) = alerts s @ [new_alert w obj1 obj2 d t s]) \<and>
   (length (alerts s) = 100 \<longrightarrow>
      alerts (generate_alert w obj1 obj2 d t s) = tl (alerts s) @ [new_alert w obj1 obj2 d t s])"
  by (simp add: alerts_generate_alert length_last_n last_n_full last_n_short)

theorem alert_log_bounded_fifo_witness:
  "length (alerts (((generate_alert quiet_world object_A object_B 0 0.1) ^^ 100) (example_state []))) = 100 \<and>
   alerts (generate_alert quiet_world object_A object_B 0 0.1
       (((generate_alert quiet_world object_A object_B 0 0.1) ^^ 100) (example_state []))) =
     tl (alerts (((generate_alert quiet_world object_A object_B 0 0.1) ^^ 100) (example_state []))) @
     [new_alert quiet_world object_A object_B 0 0.1
       (((generate_alert quiet_world object_A object_B 0 0.1) ^^ 100) (example_state []))]"
proof -
  let ?s = "((generate_alert quiet_world object_A object_B 0 0.1) ^^ 100) (example_state [])"
  have len: "length (alerts ?s) = 100"
    by (subst funpow_len) (simp_all add: example_state_def)
  from len alert_log_bounded_fifo [of quiet_world object_A object_B 0 "0.1" ?s] show ?thesis
    by blast
qed

text \<open>
  Claim C4 fails on the code: the id is \<open>len(self.alerts) + 1\<close> and the log is cut to 100
  entries, so from the 101st alert on every alert gets the id 101. After 102 alerts the
  log holds two alerts with the id 101.
\<close>

theorem alert_id_repeats_after_cap:
  "alert_id (last (alerts (((generate_alert w obj1 obj2 d t) ^^ 101) (s\<lparr>alerts := []\<rparr>)))) = 101 \<and>
   alert_id (last (alerts (((generate_alert w obj1 obj2 d t) ^^ 102) (s\<lparr>alerts := []\<rparr>)))) = 101"
proof -
  have "alert_id (last (alerts (((generate_alert w obj1 obj2 d t) ^^ Suc 100) (s\<lparr>alerts := []\<rparr>)))) = 101"
    by (subst funpow_last_id) simp_all
  moreover
  have "alert_id (last (alerts (((generate_alert w obj1 obj2 d t) ^^ Suc 101) (s\<lparr>alerts := []\<rparr>)))) = 101"
    by (subst funpow_last_id) simp_all
  ultimately show ?thesis by simp
qed

section \<open>Risk classification\<close>

text \<open>
  Claim C2. \<open>_calculate_risk_level\<close> depends on the distance and the time to conjunction
  only, and is the three-tier table with strict inequalities: High iff \<open>distance < 20\<close> and
  \<open>time < 2\<close>; otherwise Medium iff \<open>distance < 50\<close> and \<open>time < 12\<close>; otherwise Low. At
  the boundary, 19.99 km and 1.99 h is High, 20 km and 2 h is not.
\<close>

theorem risk_classification_table:
  "(calculate_risk_level d t = ''High'' \<longleftrightarrow> d < 20 \<and> t < 2) \<and>
   (calculate_risk_level d t = ''Medium'' \<longleftrightarrow> \<not> (d < 20 \<and> t < 2) \<and> d < 50 \<and> t < 12) \<and>
   (calculate_risk_level d t = ''Low'' \<longleftrightarrow> \<not> (d < 20 \<and> t < 2) \<and> \<not> (d < 50 \<and> t < 12)) \<and>
   calculate_risk_level 19.99 1.99 = ''High'' \<and>
   calculate_risk_level 20 2 \<noteq> ''High''"
  by (simp add: calculate_risk_level_def)

section \<open>Propagation keeps the radius\<close>

lemma sphere_sq:
  "(r * sin p * cos t)\<^sup>2 + (r * sin p * sin t)\<^sup>2 + (r * cos p)\<^sup>2 = (r::real)\<^sup>2"
proof -
  have t: "(cos t)\<^sup>2 + (sin t)\<^sup>2 = 1" and p: "(sin p)\<^sup>2 + (cos p)\<^sup>2 = 1"
    by simp_all
  have "(r * sin p * cos t)\<^sup>2 + (r * sin p * sin t)\<^sup>2 + (r * cos p)\<^sup>2
      = r\<^sup>2 * ((sin p)\<^sup>2 * ((cos t)\<^sup>2 + (sin t)\<^sup>2) + (cos p)\<^sup>2)"
    by (simp only: power_mult_distrib distrib_left mult.assoc)
  also have "\<dots> = r\<^sup>2"
    by (simp only: t p mult_1_right)
  finally show ?thesis .
qed

lemma magnitude_sphere:
  "magnitude [r * sin p * cos t, r * sin p * sin t, r * cos p] = \<bar>r\<bar>"
proof -
  have "magnitude [r * sin p * cos t, r * sin p * sin t, r * cos p]
      = sqrt ((r * sin p * cos t)\<^sup>2 + (r * sin p * sin t)\<^sup>2 + (r * cos p)\<^sup>2)"
    by (simp add: magnitude_def add.assoc)
  then show ?thesis
    by (simp only: sphere_sq real_sqrt_abs)
qed

lemma magnitude_random_position:
  "magnitude (random_position w k alt) = \<bar>EARTH_RADIUS + alt\<bar>"
  by (simp add: random_position_def Let_def magnitude_sphere)

lemma length3: "length p = 3 \<Longrightarrow> \<exists>x y z. p = [x, y, z]"
  by (auto simp: length_Suc_conv numeral_3_eq_3)

lemma ratio_bounds:
  fixes x y z :: real
  assumes "sqrt (x\<^sup>2 + y\<^sup>2 + z\<^sup>2) \<noteq> 0"
  shows "- 1 \<le> z / sqrt (x\<^sup>2 + y\<^sup>2 + z\<^sup>2) \<and> z / sqrt (x\<^sup>2 + y\<^sup>2 + z\<^sup>2) \<le> 1"
proof -
  let ?r = "sqrt (x\<^sup>2 + y\<^sup>2 + z\<^sup>2)"
  have "z\<^sup>2 \<le> x\<^sup>2 + y\<^sup>2 + z\<^sup>2" by simp
  then have "sqrt (z\<^sup>2) \<le> ?r" by (rule real_sqrt_le_mono)
  then have abs: "\<bar>z\<bar> \<le> ?r" by simp
  have pos: "0 < ?r" using assms by (metis abs abs_ge_zero less_eq_real_def order_trans)
  from abs pos show ?thesis by (simp add: pos_le_divide_eq pos_divide_le_eq abs_le_iff)
qed

lemma update_position_cases:
  assumes "position obj = [x, y, z]" and "sqrt (x\<^sup>2 + y\<^sup>2 + z\<^sup>2) \<noteq> 0"
    and "0 < EARTH_RADIUS + altitude obj"
  shows "\<exists>p t. update_position g obj dt =
     Inr (obj\<lparr>position := [sqrt (x\<^sup>2 + y\<^sup>2 + z\<^sup>2) * sin p * cos t,
                           sqrt (x\<^sup>2 + y\<^sup>2 + z\<^sup>2) * sin p * sin t,
                           sqrt (x\<^sup>2 + y\<^sup>2 + z\<^sup>2) * cos p]\<rparr>)"
proof -
  have b: "\<not> (z / sqrt (x\<^sup>2 + y\<^sup>2 + z\<^sup>2) < - 1 \<or> 1 < z / sqrt (x\<^sup>2 + y\<^sup>2 + z\<^sup>2))"
    using ratio_bounds [OF assms(2)] by simp
  have c: "0 < (EARTH_RADIUS + altitude obj) ^ 3 / 398600.4418"
    using assms(3) by simp
  show ?thesis
    using assms b c
    by (simp add: update_position_def Let_def not_less [symmetric]) (intro exI, rule refl)
qed

lemma update_position_on_orbit:
  assumes "on_orbit obj"
  shows "\<exists>obj'. update_position g obj dt = Inr obj' \<and> on_orbit obj' \<and>
     obj'\<lparr>position := position obj\<rparr> = obj"
proof -
  from assms obtain x y z where p: "position obj = [x, y, z]"
    using length3 [of "position obj"] unfolding on_orbit_def by blast
  from assms p have m: "sqrt (x\<^sup>2 + y\<^sup>2 + z\<^sup>2) = EARTH_RADIUS + altitude obj"
    and pos: "0 < EARTH_RADIUS + altitude obj"
    by (simp_all add: on_orbit_def magnitude_def add.assoc)
  from m pos have nz: "sqrt (x\<^sup>2 + y\<^sup>2 + z\<^sup>2) \<noteq> 0" by simp
  from update_position_cases [OF p nz pos, of g dt] obtain ph th where
    u: "update_position g obj dt =
      Inr (obj\<lparr>position := [sqrt (x\<^sup>2 + y\<^sup>2 + z\<^sup>2) * sin ph * cos th,
                           sqrt (x\<^sup>2 + y\<^sup>2 + z\<^sup>2) * sin ph * sin th,
                           sqrt (x\<^sup>2 + y\<^sup>2 + z\<^sup>2) * cos ph]\<rparr>)"
    by blast
  show ?thesis
    using pos m by (simp add: u on_orbit_def magnitude_sphere)
qed

section \<open>The detection pass\<close>

lemma fold_nested:
  "fold (\<lambda>i. fold (f i) (js i)) is s =
   fold (\<lambda>(i, j). f i j) (concat (map (\<lambda>i. map (Pair i) (js i)) is)) s"
  by (induction "is" arbitrary: s) (simp_all add: fold_map comp_def)

lemma check_conjunctions_pairs:
  "check_conjunctions w s =
   check_pairs w (pairs (length (space_objects s)))
     (s\<lparr>space_objects := map without_risk (space_objects s)\<rparr>)"
  by (simp add: check_conjunctions_def check_pairs_def pairs_def Let_def fold_nested
      without_risk_def [abs_def])

lemma set_pairs: "set (pairs n) = {(i, j). i < j \<and> j < n}"
  by (fastforce simp: pairs_def)

lemma map_update_same:
  "(\<And>x. f (g x) = f x) \<Longrightarrow> map f (xs[i := g (xs ! i)]) = map f xs"
  by (induction xs arbitrary: i) (auto split: nat.splits)

lemma check_pair_without_risk:
  "map without_risk (space_objects (check_pair w i j s)) = map without_risk (space_objects s)"
proof -
  have *: "\<And>e xs k. map without_risk (xs[k := (xs ! k)\<lparr>risk_objects := risk_objects (xs ! k) @ [e]\<rparr>])
      = map without_risk xs"
    by (rule map_update_same [where g = "\<lambda>x. x\<lparr>risk_objects := risk_objects x @ [e]\<rparr>" for e])
       (simp add: without_risk_def)
  show ?thesis
    by (simp add: check_pair_def Let_def now_def generate_alert_frame *)
qed

lemma check_pairs_without_risk:
  "map without_risk (space_objects (check_pairs w ps s)) = map without_risk (space_objects s)"
  unfolding check_pairs_def
  by (induction ps arbitrary: s) (auto simp: check_pair_without_risk)

lemma check_conjunctions_without_risk:
  "map without_risk (space_objects (check_conjunctions w s)) = map without_risk (space_objects s)"
  by (simp add: check_conjunctions_pairs check_pairs_without_risk without_risk_def comp_def)

lemma without_risk_simps [simp]:
  "position (without_risk obj) = position obj"
  "velocity (without_risk obj) = velocity obj"
  "obj_id (without_risk obj) = obj_id obj"
  "name (without_risk obj) = name obj"
  "obj_type (without_risk obj) = obj_type obj"
  "altitude (without_risk obj) = altitude obj"
  "risk_objects (without_risk obj) = []"
  by (simp_all add: without_risk_def)

lemma without_risk_idem: "without_risk \<circ> without_risk = without_risk"
  by (simp add: without_risk_def fun_eq_iff)

lemma pair_entry_without_risk [simp]:
  "pair_entry (without_risk a) (without_risk b) = pair_entry a b"
  "within_threshold (without_risk a) (without_risk b) = within_threshold a b"
  by (simp_all add: pair_entry_def within_threshold_def fun_eq_iff)

lemma length_check_pair [simp]:
  "length (space_objects (check_pair w i j s)) = length (space_objects s)"
  using arg_cong [OF check_pair_without_risk [of w i j s], of length] by simp

lemma length_check_pairs [simp]:
  "length (space_objects (check_pairs w ps s)) = length (space_objects s)"
  using arg_cong [OF check_pairs_without_risk [of w ps s], of length] by simp

lemma check_pair_risk:
  assumes "i < length (space_objects s)" "j < length (space_objects s)"
    "k < length (space_objects s)"
  shows "risk_objects (space_objects (check_pair w i j s) ! k) =
     risk_objects (space_objects s ! k) @ contrib (space_objects s) k (i, j)"
  using assms
  by (simp add: check_pair_def Let_def now_def generate_alert_frame contrib_def
      within_threshold_def pair_entry_def nth_list_update)

lemma contrib_without_risk:
  assumes "fst p < length objs" "snd p < length objs"
  shows "contrib (map without_risk objs) k p = contrib objs k p"
  using assms by (cases p) (simp add: contrib_def)

lemma check_pairs_risk:
  assumes "\<forall>p\<in>set ps. fst p < length (space_objects s) \<and> snd p < length (space_objects s)"
    and "k < length (space_objects s)"
  shows "risk_objects (space_objects (check_pairs w ps s) ! k) =
     risk_objects (space_objects s ! k) @
     concat (map (contrib (map without_risk (space_objects s)) k) ps)"
  using assms
proof (induction ps arbitrary: s)
  case Nil
  then show ?case by (simp add: check_pairs_def)
next
  case (Cons p ps)
  obtain i j where p: "p = (i, j)" by (cases p)
  let ?s1 = "check_pair w i j s"
  have step: "check_pairs w ((i, j) # ps) s = check_pairs w ps ?s1"
    by (simp add: check_pairs_def)
  have ij: "i < length (space_objects s)" "j < length (space_objects s)"
    using Cons.prems(1) p by auto
  have "risk_objects (space_objects (check_pairs w ps ?s1) ! k) =
     risk_objects (space_objects ?s1 ! k) @
     concat (map (contrib (map without_risk (space_objects ?s1)) k) ps)"
    using Cons.prems by (intro Cons.IH) auto
  then show ?case
    using ij Cons.prems(2)
    by (simp add: step check_pair_risk check_pair_without_risk p contrib_without_risk)
qed

lemma check_conjunctions_risk:
  assumes "k < length (space_objects s)"
  shows "risk_objects (space_objects (check_conjunctions w s) ! k) =
     concat (map (contrib (space_objects s) k) (pairs (length (space_objects s))))"
proof -
  let ?n = "length (space_objects s)"
  let ?s0 = "s\<lparr>space_objects := map without_risk (space_objects s)\<rparr>"
  have same: "map (contrib (map without_risk (space_objects ?s0)) k) (pairs ?n)
      = map (contrib (space_objects s) k) (pairs ?n)"
    by (rule map_cong [OF refl])
       (auto simp: set_pairs contrib_without_risk without_risk_idem)
  have "risk_objects (space_objects (check_conjunctions w s) ! k) =
     risk_objects (space_objects (check_pairs w (pairs ?n) ?s0) ! k)"
    by (simp only: check_conjunctions_pairs)
  also have "\<dots> = risk_objects (space_objects ?s0 ! k) @
     concat (map (contrib (map without_risk (space_objects ?s0)) k) (pairs ?n))"
    using assms by (intro check_pairs_risk) (auto simp: set_pairs)
  also have "\<dots> = concat (map (contrib (space_objects s) k) (pairs ?n))"
    using assms by (simp only: same) simp
  finally show ?thesis .
qed

lemma risk_membership:
  assumes "k < length (space_objects s)"
  shows "e \<in> set (risk_objects (space_objects (check_conjunctions w s) ! k)) \<longleftrightarrow>
     (\<exists>i j. i < j \<and> j < length (space_objects s) \<and>
        within_threshold (space_objects s ! i) (space_objects s ! j) \<and>
        (k = i \<and> e = pair_entry (space_objects s ! i) (space_objects s ! j)
                        (obj_id (space_objects s ! j)) \<or>
         k = j \<and> e = pair_entry (space_objects s ! i) (space_objects s ! j)
                        (obj_id (space_objects s ! i))))"
  by (auto simp: check_conjunctions_risk [OF assms] set_pairs contrib_def split: if_splits)

lemma id_inj:
  assumes "distinct (map obj_id objs)" "i < length objs" "j < length objs"
    "obj_id (objs ! i) = obj_id (objs ! j)"
  shows "i = j"
  using assms nth_eq_iff_index_eq [of "map obj_id objs" i j] by simp

lemma pair_entry_simps [simp]:
  "object_id (pair_entry a b p) = p"
  "distance_km (pair_entry a b p) = calculate_distance (position a) (position b)"
  "velocity_kmps (pair_entry a b p) = \<bar>velocity a - velocity b\<bar>"
  by (simp_all add: pair_entry_def Let_def)

lemma pair_entry_data:
  "pair_entry a b p\<lparr>object_id := q\<rparr> = pair_entry a b q"
  by (simp add: pair_entry_def Let_def)

text \<open>Entries of the lower-indexed object that name the higher one, and conversely.\<close>

lemma entries_naming_peer:
  fixes w s a b
  assumes d: "distinct (map obj_id (space_objects s))"
    and ab: "a < b" "b < length (space_objects s)"
  defines "s' \<equiv> check_conjunctions w s"
  defines "A \<equiv> space_objects s ! a" and "B \<equiv> space_objects s ! b"
  shows "e \<in> set (risk_objects (space_objects s' ! a)) \<and> object_id e = obj_id B \<longleftrightarrow>
           within_threshold A B \<and> e = pair_entry A B (obj_id B)"
    and "e \<in> set (risk_objects (space_objects s' ! b)) \<and> object_id e = obj_id A \<longleftrightarrow>
           within_threshold A B \<and> e = pair_entry A B (obj_id A)"
proof -
  have a: "a < length (space_objects s)" using ab by simp
  show "e \<in> set (risk_objects (space_objects s' ! a)) \<and> object_id e = obj_id B \<longleftrightarrow>
           within_threshold A B \<and> e = pair_entry A B (obj_id B)"
    unfolding s'_def A_def B_def risk_membership [OF a]
    using ab a id_inj [OF d] by (auto; (metis less_trans less_imp_le not_less order.strict_trans)?)
  show "e \<in> set (risk_objects (space_objects s' ! b)) \<and> object_id e = obj_id A \<longleftrightarrow>
           within_threshold A B \<and> e = pair_entry A B (obj_id A)"
    unfolding s'_def A_def B_def risk_membership [OF ab(2)]
    using ab a id_inj [OF d] by (auto; (metis less_trans less_imp_le not_less order.strict_trans)?)
qed

lemma check_pair_due:
  assumes "alert_due w i j s"
  shows "alerts (check_pair w i j s) = last_n 100 (alerts s @ [pair_alert w i j s])"
    and "last_alert_time (check_pair w i j s) = clock w (now_calls s)"
    and "now_calls (check_pair w i j s) = now_calls s + 2"
  using assms
  by (simp_all add: alert_due_def check_pair_def Let_def now_def alerts_generate_alert
      new_alert_def pair_alert_def within_threshold_def pair_entry_def generate_alert_frame)

lemma check_pair_not_due:
  assumes "\<not> alert_due w i j s"
  shows "alerts (check_pair w i j s) = alerts s"
    and "last_alert_time (check_pair w i j s) = last_alert_time s"
    and "now_calls (check_pair w i j s) =
      (if within_threshold (space_objects s ! i) (space_objects s ! j)
       then Suc (now_calls s) else now_calls s)"
  using assms
  by (auto simp add: alert_due_def check_pair_def Let_def now_def
      within_threshold_def pair_entry_def)

lemma alerts_check_pair:
  assumes "al \<in> set (alerts (check_pair w i j s))"
  shows "al \<in> set (alerts s) \<or>
     within_threshold (space_objects s ! i) (space_objects s ! j) \<and>
     object_ids al = [obj_id (space_objects s ! i), obj_id (space_objects s ! j)]"
proof (cases "alert_due w i j s")
  case True
  from assms have "al \<in> set (alerts s @ [pair_alert w i j s])"
    using set_last_n [of 100 "alerts s @ [pair_alert w i j s]"]
    by (auto simp: check_pair_due(1) [OF True])
  then show ?thesis
    using True by (auto simp: pair_alert_def Let_def alert_due_def)
next
  case False
  then show ?thesis using assms by (simp add: check_pair_not_due(1))
qed

lemma alerts_check_pairs:
  assumes "al \<in> set (alerts (check_pairs w ps s))"
    and "\<forall>p\<in>set ps. fst p < length (space_objects s) \<and> snd p < length (space_objects s)"
  shows "al \<in> set (alerts s) \<or>
     (\<exists>(i, j)\<in>set ps. within_threshold (space_objects s ! i) (space_objects s ! j) \<and>
        object_ids al = [obj_id (space_objects s ! i), obj_id (space_objects s ! j)])"
  using assms
proof (induction ps arbitrary: s)
  case Nil
  then show ?case by (simp add: check_pairs_def)
next
  case (Cons p ps)
  obtain i j where p: "p = (i, j)" by (cases p)
  let ?s1 = "check_pair w i j s"
  have step: "check_pairs w ((i, j) # ps) s = check_pairs w ps ?s1"
    by (simp add: check_pairs_def)
  have same: "map without_risk (space_objects ?s1) = map without_risk (space_objects s)"
    by (rule check_pair_without_risk)
  have nth: "\<And>k. k < length (space_objects s) \<Longrightarrow>
      without_risk (space_objects ?s1 ! k) = without_risk (space_objects s ! k)"
    using same by (metis length_check_pair nth_map)
  have stable: "\<And>a b. a < length (space_objects s) \<Longrightarrow> b < length (space_objects s) \<Longrightarrow>
      within_threshold (space_objects ?s1 ! a) (space_objects ?s1 ! b) =
        within_threshold (space_objects s ! a) (space_objects s ! b) \<and>
      obj_id (space_objects ?s1 ! a) = obj_id (space_objects s ! a)"
    by (metis nth pair_entry_without_risk(2) without_risk_simps(3))
  from Cons.prems have "al \<in> set (alerts (check_pairs w ps ?s1))"
    by (simp add: p step)
  moreover from Cons.prems have
    "\<forall>p\<in>set ps. fst p < length (space_objects ?s1) \<and> snd p < length (space_objects ?s1)"
    by simp
  ultimately have "al \<in> set (alerts ?s1) \<or>
     (\<exists>(i, j)\<in>set ps. within_threshold (space_objects ?s1 ! i) (space_objects ?s1 ! j) \<and>
        object_ids al = [obj_id (space_objects ?s1 ! i), obj_id (space_objects ?s1 ! j)])"
    by (rule Cons.IH)
  then show ?case
  proof
    assume "al \<in> set (alerts ?s1)"
    then show ?thesis using alerts_check_pair [of al w i j s] p by auto
  next
    assume "\<exists>(i, j)\<in>set ps. within_threshold (space_objects ?s1 ! i) (space_objects ?s1 ! j) \<and>
        object_ids al = [obj_id (space_objects ?s1 ! i), obj_id (space_objects ?s1 ! j)]"
    then obtain a b where ab: "(a, b) \<in> set ps"
      "within_threshold (space_objects ?s1 ! a) (space_objects ?s1 ! b)"
      "object_ids al = [obj_id (space_objects ?s1 ! a), obj_id (space_objects ?s1 ! b)]"
      by auto
    with Cons.prems(2) have lt: "a < length (space_objects s)" "b < length (space_objects s)"
      by auto
    from ab stable [OF lt] stable [OF lt(2) lt(1)] show ?thesis by auto
  qed
qed

lemma alerts_check_conjunctions:
  assumes "al \<in> set (alerts (check_conjunctions w s))"
  shows "al \<in> set (alerts s) \<or>
     (\<exists>i j. i < j \<and> j < length (space_objects s) \<and>
        within_threshold (space_objects s ! i) (space_objects s ! j) \<and>
        object_ids al = [obj_id (space_objects s ! i), obj_id (space_objects s ! j)])"
proof -
  let ?s0 = "s\<lparr>space_objects := map without_risk (space_objects s)\<rparr>"
  have "al \<in> set (alerts ?s0) \<or>
     (\<exists>(i, j)\<in>set (pairs (length (space_objects s))).
        within_threshold (space_objects ?s0 ! i) (space_objects ?s0 ! j) \<and>
        object_ids al = [obj_id (space_objects ?s0 ! i), obj_id (space_objects ?s0 ! j)])"
    using assms unfolding check_conjunctions_pairs
    by (intro alerts_check_pairs) (auto simp: set_pairs)
  then show ?thesis
  proof
    assume "al \<in> set (alerts ?s0)"
    then show ?thesis by simp
  next
    assume "\<exists>(i, j)\<in>set (pairs (length (space_objects s))).
        within_threshold (space_objects ?s0 ! i) (space_objects ?s0 ! j) \<and>
        object_ids al = [obj_id (space_objects ?s0 ! i), obj_id (space_objects ?s0 ! j)]"
    then obtain i j where "i < j" "j < length (space_objects s)"
      "within_threshold (space_objects ?s0 ! i) (space_objects ?s0 ! j)"
      "object_ids al = [obj_id (space_objects ?s0 ! i), obj_id (space_objects ?s0 ! j)]"
      by (auto simp: set_pairs)
    then show ?thesis
      by (intro disjI2 exI [of _ i] exI [of _ j]) simp
  qed
qed

text \<open>
  Claim C7. Let two distinct objects of a catalog with unique ids be at least 100 km apart
  when \<open>_check_conjunctions\<close> runs. After the pass neither object's risk list has an entry
  naming the other, every alert of the log that names the two was in the log before the
  pass, and the loop body for the pair changes nothing. The velocities play no role.
\<close>

theorem no_risk_entry_beyond_threshold:
  assumes "distinct (map obj_id (space_objects s))"
    and "a < b" and "b < length (space_objects s)"
    and "100 \<le> calculate_distance (position (space_objects s ! a)) (position (space_objects s ! b))"
  shows "\<not> (\<exists>e\<in>set (risk_objects (space_objects (check_conjunctions w s) ! a)).
            object_id e = obj_id (space_objects s ! b)) \<and>
         \<not> (\<exists>e\<in>set (risk_objects (space_objects (check_conjunctions w s) ! b)).
            object_id e = obj_id (space_objects s ! a)) \<and>
         \<not> (\<exists>al\<in>set (alerts (check_conjunctions w s)). al \<notin> set (alerts s) \<and>
            set (object_ids al) = {obj_id (space_objects s ! a), obj_id (space_objects s ! b)}) \<and>
         check_pair w a b s = s"
proof -
  have far: "\<not> within_threshold (space_objects s ! a) (space_objects s ! b)"
    using assms(4) by (simp add: within_threshold_def)
  have a: "a < length (space_objects s)" using assms by simp
  have 1: "\<not> (\<exists>e\<in>set (risk_objects (space_objects (check_conjunctions w s) ! a)).
            object_id e = obj_id (space_objects s ! b))"
    using entries_naming_peer(1) [OF assms(1-3)] far by blast
  have 2: "\<not> (\<exists>e\<in>set (risk_objects (space_objects (check_conjunctions w s) ! b)).
            object_id e = obj_id (space_objects s ! a))"
    using entries_naming_peer(2) [OF assms(1-3)] far by blast
  have 3: "\<not> (\<exists>al\<in>set (alerts (check_conjunctions w s)). al \<notin> set (alerts s) \<and>
            set (object_ids al) = {obj_id (space_objects s ! a), obj_id (space_objects s ! b)})"
  proof
    assume "\<exists>al\<in>set (alerts (check_conjunctions w s)). al \<notin> set (alerts s) \<and>
            set (object_ids al) = {obj_id (space_objects s ! a), obj_id (space_objects s ! b)}"
    then obtain al where al: "al \<in> set (alerts (check_conjunctions w s))" "al \<notin> set (alerts s)"
      "set (object_ids al) = {obj_id (space_objects s ! a), obj_id (space_objects s ! b)}"
      by blast
    from alerts_check_conjunctions [OF al(1)] al(2) obtain i j where ij:
      "i < j" "j < length (space_objects s)"
      "within_threshold (space_objects s ! i) (space_objects s ! j)"
      "object_ids al = [obj_id (space_objects s ! i), obj_id (space_objects s ! j)]"
      by blast
    have i: "i < length (space_objects s)" using ij by simp
    from al(3) ij(4) have
      "{obj_id (space_objects s ! i), obj_id (space_objects s ! j)} =
       {obj_id (space_objects s ! a), obj_id (space_objects s ! b)}"
      by simp
    then have "i = a \<and> j = b \<or> i = b \<and> j = a"
      using id_inj [OF assms(1)] i ij(2) a assms(3) by (metis doubleton_eq_iff)
    with ij(1) assms(2) have "i = a" "j = b" by auto
    with ij(3) far show False by simp
  qed
  have 4: "check_pair w a b s = s"
    using assms(4) by (simp add: check_pair_def Let_def)
  from 1 2 3 4 show ?thesis by blast
qed

theorem no_risk_entry_beyond_threshold_witness:
  "100 \<le> calculate_distance (position (space_objects far_pair ! 0))
            (position (space_objects far_pair ! 1)) \<and>
   \<not> (\<exists>e\<in>set (risk_objects (space_objects (check_conjunctions quiet_world far_pair) ! 0)).
         object_id e = ''B'') \<and>
   \<not> (\<exists>e\<in>set (risk_objects (space_objects (check_conjunctions quiet_world far_pair) ! 1)).
         object_id e = ''A'') \<and>
   check_pair quiet_world 0 1 far_pair = far_pair"
proof -
  have d: "distinct (map obj_id (space_objects far_pair))"
    by (simp add: far_pair_def example_state_def example_object_def)
  have n: "(0::nat) < 1" "1 < length (space_objects far_pair)"
    by (simp_all add: far_pair_def example_state_def)
  have far: "100 \<le> calculate_distance (position (space_objects far_pair ! 0))
            (position (space_objects far_pair ! 1))"
    by (simp add: far_pair_def example_state_def example_object_def calculate_distance_def
        sqrt_10000)
  have ids: "obj_id (space_objects far_pair ! 0) = ''A''" "obj_id (space_objects far_pair ! 1) = ''B''"
    by (simp_all add: far_pair_def example_state_def example_object_def)
  from no_risk_entry_beyond_threshold [OF d n far, of quiet_world] far show ?thesis
    by (simp only: ids) blast
qed

lemma peers_ordered:
  assumes d: "distinct (map obj_id (space_objects s))"
    and ab: "a < b" "b < length (space_objects s)"
  shows "((\<exists>e\<in>set (risk_objects (space_objects (check_conjunctions w s) ! a)).
            object_id e = obj_id (space_objects s ! b)) \<longleftrightarrow>
          (\<exists>e\<in>set (risk_objects (space_objects (check_conjunctions w s) ! b)).
            object_id e = obj_id (space_objects s ! a))) \<and>
         (\<forall>e\<in>set (risk_objects (space_objects (check_conjunctions w s) ! a)).
          \<forall>e'\<in>set (risk_objects (space_objects (check_conjunctions w s) ! b)).
            object_id e = obj_id (space_objects s ! b) \<and>
            object_id e' = obj_id (space_objects s ! a) \<longrightarrow>
            distance_km e = distance_km e' \<and> velocity_kmps e = velocity_kmps e' \<and>
            time_to_conjunction e = time_to_conjunction e' \<and> risk_level e = risk_level e')"
proof -
  note n = entries_naming_peer [OF d ab, of _ w]
  have 1: "(\<exists>e\<in>set (risk_objects (space_objects (check_conjunctions w s) ! a)).
            object_id e = obj_id (space_objects s ! b)) \<longleftrightarrow>
      within_threshold (space_objects s ! a) (space_objects s ! b)"
    using n(1) by blast
  have 2: "(\<exists>e\<in>set (risk_objects (space_objects (check_conjunctions w s) ! b)).
            object_id e = obj_id (space_objects s ! a)) \<longleftrightarrow>
      within_threshold (space_objects s ! a) (space_objects s ! b)"
    using n(2) by blast
  have 3: "distance_km e = distance_km e' \<and> velocity_kmps e = velocity_kmps e' \<and>
            time_to_conjunction e = time_to_conjunction e' \<and> risk_level e = risk_level e'"
    if "e \<in> set (risk_objects (space_objects (check_conjunctions w s) ! a))"
      "e' \<in> set (risk_objects (space_objects (check_conjunctions w s) ! b))"
      "object_id e = obj_id (space_objects s ! b)" "object_id e' = obj_id (space_objects s ! a)"
    for e e'
  proof -
    from that n(1) [of e] n(2) [of e'] have
      "e = pair_entry (space_objects s ! a) (space_objects s ! b) (obj_id (space_objects s ! b))"
      "e' = pair_entry (space_objects s ! a) (space_objects s ! b) (obj_id (space_objects s ! a))"
      by blast+
    then show ?thesis by (simp add: pair_entry_def Let_def)
  qed
  from 1 2 3 show ?thesis by blast
qed

text \<open>
  Claim C10. After \<open>_check_conjunctions\<close> on a catalog with unique ids, for any two distinct
  objects A and B: A has a risk entry naming B iff B has one naming A, and such entries
  agree on \<open>distance_km\<close>, \<open>velocity_kmps\<close>, \<open>time_to_conjunction\<close> and \<open>risk_level\<close>.
\<close>

theorem risk_peers_symmetric:
  assumes "distinct (map obj_id (space_objects s))"
    and "a < length (space_objects s)" and "b < length (space_objects s)" and "a \<noteq> b"
  shows "((\<exists>e\<in>set (risk_objects (space_objects (check_conjunctions w s) ! a)).
            object_id e = obj_id (space_objects s ! b)) \<longleftrightarrow>
          (\<exists>e\<in>set (risk_objects (space_objects (check_conjunctions w s) ! b)).
            object_id e = obj_id (space_objects s ! a))) \<and>
         (\<forall>e\<in>set (risk_objects (space_objects (check_conjunctions w s) ! a)).
          \<forall>e'\<in>set (risk_objects (space_objects (check_conjunctions w s) ! b)).
            object_id e = obj_id (space_objects s ! b) \<and>
            object_id e' = obj_id (space_objects s ! a) \<longrightarrow>
            distance_km e = distance_km e' \<and> velocity_kmps e = velocity_kmps e' \<and>
            time_to_conjunction e = time_to_conjunction e' \<and> risk_level e = risk_level e')"
proof (cases "a < b")
  case True
  then show ?thesis using peers_ordered [OF assms(1) True assms(3), of w] by blast
next
  case False
  then have "b < a" using assms(4) by simp
  then show ?thesis using peers_ordered [OF assms(1) \<open>b < a\<close> assms(2), of w]
    by (metis (no_types, lifting))
qed

theorem risk_peers_symmetric_witness:
  "((\<exists>e\<in>set (risk_objects (space_objects (check_conjunctions quiet_world near_pair) ! 0)).
       object_id e = ''B'') \<longleftrightarrow>
    (\<exists>e\<in>set (risk_objects (space_objects (check_conjunctions quiet_world near_pair) ! 1)).
       object_id e = ''A'')) \<and>
   \<not> (\<exists>e\<in>set (risk_objects (space_objects (check_conjunctions quiet_world near_pair) ! 0)).
       \<exists>e'\<in>set (risk_objects (space_objects (check_conjunctions quiet_world near_pair) ! 1)).
         object_id e = ''B'' \<and> object_id e' = ''A'' \<and>
         (distance_km e \<noteq> distance_km e' \<or> risk_level e \<noteq> risk_level e'))"
proof -
  have d: "distinct (map obj_id (space_objects near_pair))"
    by (simp add: near_pair_def example_state_def example_object_def)
  have n: "0 < length (space_objects near_pair)" "1 < length (space_objects near_pair)"
    "(0::nat) \<noteq> 1"
    by (simp_all add: near_pair_def example_state_def)
  have ids: "obj_id (space_objects near_pair ! 0) = ''A''" "obj_id (space_objects near_pair ! 1) = ''B''"
    by (simp_all add: near_pair_def example_state_def example_object_def)
  from risk_peers_symmetric [OF d n, of quiet_world] show ?thesis
    by (simp only: ids) blast
qed

section \<open>The radius over any number of ticks\<close>

lemma on_orbit_without_risk [simp]: "on_orbit (without_risk obj) = on_orbit obj"
  by (simp add: on_orbit_def)

lemma update_positions_on_orbit:
  assumes "list_all on_orbit (space_objects s)"
    and "\<forall>k\<in>set ks. k < length (space_objects s)"
  shows "\<exists>s'. update_positions w dt ks s = Inr s' \<and> list_all on_orbit (space_objects s') \<and>
           length (space_objects s') = length (space_objects s)"
  using assms
proof (induction ks arbitrary: s)
  case Nil
  then show ?case by simp
next
  case (Cons k ks)
  have k: "k < length (space_objects s)" using Cons.prems(2) by simp
  then have "on_orbit (space_objects s ! k)"
    using Cons.prems(1) by (simp add: list_all_length)
  from update_position_on_orbit [OF this, of "gauss w (gauss_calls s)" dt]
  obtain obj' where u: "update_position (gauss w (gauss_calls s)) (space_objects s ! k) dt = Inr obj'"
    and o: "on_orbit obj'" by blast
  let ?s1 = "s\<lparr>space_objects := (space_objects s)[k := obj'\<lparr>last_update := clock w (now_calls s)\<rparr>],
              gauss_calls := Suc (gauss_calls s), now_calls := Suc (now_calls s)\<rparr>"
  have step: "update_positions w dt (k # ks) s = update_positions w dt ks ?s1"
    using k by (simp add: u now_def)
      (rule arg_cong [where f = "update_positions w dt ks"], rule propagator.equality, simp_all)
  have "on_orbit (obj'\<lparr>last_update := clock w (now_calls s)\<rparr>)"
    using o by (simp add: on_orbit_def)
  then have "list_all on_orbit (space_objects ?s1)"
    using Cons.prems(1) k by (simp add: list_all_length nth_list_update)
  moreover have "\<forall>k\<in>set ks. k < length (space_objects ?s1)"
    using Cons.prems(2) by simp
  ultimately obtain s' where "update_positions w dt ks ?s1 = Inr s'"
    "list_all on_orbit (space_objects s')" "length (space_objects s') = length (space_objects ?s1)"
    using Cons.IH [of ?s1] by blast
  then have "\<exists>s'. update_positions w dt ks ?s1 = Inr s' \<and> list_all on_orbit (space_objects s') \<and>
      length (space_objects s') = length (space_objects s)"
    by simp
  then show ?case by (simp only: step)
qed

lemma check_conjunctions_on_orbit:
  "list_all on_orbit (space_objects (check_conjunctions w s)) = list_all on_orbit (space_objects s)"
proof -
  have "list_all on_orbit (map without_risk xs) = list_all on_orbit xs" for xs
    by (simp add: list_all_iff)
  then show ?thesis
    by (metis check_conjunctions_without_risk)
qed

lemma update_on_orbit:
  assumes "list_all on_orbit (space_objects s)"
  shows "\<exists>s' objs als. update w dt s = Inr (s', objs, als) \<and> list_all on_orbit (space_objects s')"
proof -
  from update_positions_on_orbit [OF assms, of "[0..<length (space_objects s)]" w dt]
  obtain s1 where "update_positions w dt [0..<length (space_objects s)] s = Inr s1"
    "list_all on_orbit (space_objects s1)" by auto
  then show ?thesis
    by (simp add: update_def Let_def check_conjunctions_on_orbit)
qed

lemma ticks_on_orbit:
  assumes "list_all on_orbit (space_objects s)"
  shows "\<exists>s'. ticks w dts s = Inr s' \<and> list_all on_orbit (space_objects s')"
  using assms
proof (induction dts arbitrary: s)
  case Nil
  then show ?case by simp
next
  case (Cons dt dts)
  from update_on_orbit [OF Cons.prems, of w dt] obtain s1 objs als where
    "update w dt s = Inr (s1, objs, als)" "list_all on_orbit (space_objects s1)" by blast
  with Cons.IH [of s1] show ?case by simp
qed

lemma init_on_orbit: "list_all on_orbit (space_objects (init w))"
  by (simp add: init_def on_orbit_def magnitude_random_position EARTH_RADIUS_def)
     (simp add: random_position_def Let_def)

text \<open>
  Claim C1. Start from the catalog that \<open>__init__\<close> builds, with any random draws and any
  clock, and call \<open>update\<close> any number of times with any time steps. No call raises, and
  afterwards the magnitude of every object's position is \<open>EARTH_RADIUS + altitude\<close>
  (in exact real arithmetic: the radius does not drift).
\<close>

theorem radius_preserved_by_propagation:
  "\<exists>s'. ticks w dts (init w) = Inr s' \<and>
     (\<forall>obj\<in>set (space_objects s'). magnitude (position obj) = EARTH_RADIUS + altitude obj)"
  using ticks_on_orbit [OF init_on_orbit [of w], of w dts]
  by (auto simp: list_all_iff on_orbit_def)

theorem radius_preserved_by_propagation_witness:
  "\<exists>s'. ticks quiet_world [60, 30] (init quiet_world) = Inr s' \<and>
     (\<forall>obj\<in>set (space_objects s'). magnitude (position obj) = EARTH_RADIUS + altitude obj)"
  by (rule radius_preserved_by_propagation)

section \<open>Lookup by id\<close>

lemma update_position_only_position:
  assumes "update_position g obj dt = Inr obj'"
  shows "obj' = obj\<lparr>position := position obj'\<rparr>"
  using assms
  by (auto simp: update_position_def Let_def split: list.splits if_splits)

lemma update_position_identity:
  assumes "update_position g obj dt = Inr obj'"
  shows "identity_fields obj' = identity_fields obj"
  using update_position_only_position [OF assms]
  by (metis identity_fields_def space_object.select_convs(1,2,3) space_object.surjective
      space_object.update_convs(7))

lemma map_update_keep:
  assumes "k < length xs \<Longrightarrow> f y = f (xs ! k)"
  shows "map f (xs[k := y]) = map f xs"
  using assms by (cases "k < length xs") (simp_all add: map_update list_update_same_conv list_update_beyond)

lemma update_positions_identity:
  assumes "update_positions w dt ks s = Inr s'"
  shows "map identity_fields (space_objects s') = map identity_fields (space_objects s)"
  using assms
proof (induction ks arbitrary: s)
  case Nil
  then show ?case by simp
next
  case (Cons k ks)
  from Cons.prems obtain obj where
    u: "update_position (gauss w (gauss_calls s)) (space_objects s ! k) dt = Inr obj"
    by (auto split: sum.splits)
  let ?s1 = "s\<lparr>space_objects := (space_objects s)[k := obj\<lparr>last_update := clock w (now_calls s)\<rparr>],
              gauss_calls := Suc (gauss_calls s), now_calls := Suc (now_calls s)\<rparr>"
  have eq: "(space_objects s)[k := ((space_objects s)[k := obj] ! k)\<lparr>last_update := t\<rparr>]
      = (space_objects s)[k := obj\<lparr>last_update := t\<rparr>]" for t
    by (cases "k < length (space_objects s)") (simp_all add: list_update_beyond)
  have step: "update_positions w dt (k # ks) s = update_positions w dt ks ?s1"
    by (simp add: u now_def eq)
      (rule arg_cong [where f = "update_positions w dt ks"], rule propagator.equality, simp_all)
  have "identity_fields (obj\<lparr>last_update := clock w (now_calls s)\<rparr>) = identity_fields (space_objects s ! k)"
    using update_position_identity [OF u] by (simp add: identity_fields_def)
  then have "map identity_fields (space_objects ?s1) = map identity_fields (space_objects s)"
    by (simp add: map_update_keep)
  moreover have "map identity_fields (space_objects s') = map identity_fields (space_objects ?s1)"
    using Cons.prems by (intro Cons.IH) (simp only: step)
  ultimately show ?case by simp
qed

lemma identity_without_risk: "identity_fields (without_risk obj) = identity_fields obj"
  by (simp add: identity_fields_def)

lemma check_conjunctions_identity:
  "map identity_fields (space_objects (check_conjunctions w s)) =
   map identity_fields (space_objects s)"
proof -
  have "map identity_fields (map without_risk xs) = map identity_fields xs" for xs
    by (simp add: identity_without_risk)
  then show ?thesis
    by (metis check_conjunctions_without_risk)
qed

lemma update_identity:
  assumes "update w dt s = Inr (s', objs, als)"
  shows "map identity_fields (space_objects s') = map identity_fields (space_objects s)"
  using assms
  by (auto simp: update_def Let_def check_conjunctions_identity
      dest!: update_positions_identity split: sum.splits)

lemma ticks_identity:
  assumes "ticks w dts s = Inr s'"
  shows "map identity_fields (space_objects s') = map identity_fields (space_objects s)"
  using assms
proof (induction dts arbitrary: s)
  case Nil
  then show ?case by simp
next
  case (Cons dt dts)
  then show ?case
    by (auto split: sum.splits dest!: update_identity) 
qed

lemma find_by_id_None:
  "find_by_id objs oid = None \<longleftrightarrow> oid \<notin> fst ` set (map identity_fields objs)"
  by (induction objs) (auto simp: identity_fields_def)

lemma find_by_id_Some:
  assumes "map identity_fields objs' = map identity_fields objs"
    and "find (\<lambda>obj. obj_id obj = oid) objs = Some obj"
  shows "\<exists>snap. find_by_id objs' oid = Some snap \<and> ser_id snap = oid \<and>
           ser_name snap = name obj \<and> ser_type snap = obj_type obj"
  using assms
proof (induction objs arbitrary: objs')
  case Nil
  then show ?case by simp
next
  case (Cons x xs)
  from Cons.prems(1) obtain y ys where objs': "objs' = y # ys"
    and y: "identity_fields y = identity_fields x"
    and ys: "map identity_fields ys = map identity_fields xs"
    by (cases objs') auto
  show ?case
  proof (cases "obj_id x = oid")
    case True
    with Cons.prems(2) have "obj = x" by simp
    with True y show ?thesis
      by (simp add: objs' identity_fields_def serialize_def)
  next
    case False
    with Cons.prems(2) have "find (\<lambda>obj. obj_id obj = oid) xs = Some obj" by simp
    from Cons.IH [OF ys this] False y show ?thesis
      by (simp add: objs' identity_fields_def)
  qed
qed

text \<open>
  Claim C8. After any number of successful \<open>update\<close> calls on a catalog, \<open>get_object_by_id\<close>
  returns None for every id that no object of the catalog has, and \<open>get_object\<close> of
  \<open>main.py\<close> then raises the 404 HTTPException; for an id of the catalog it returns the
  snapshot of the first object with that id, whose id, name and type are those the object
  had before the calls.
\<close>

theorem get_object_by_id_stable:
  assumes "ticks w dts s = Inr s'"
  shows "(oid \<notin> obj_id ` set (space_objects s) \<longrightarrow>
            get_object_by_id s' oid = None \<and>
            get_object s' oid = Inl (HTTPException 404 ''Object not found'')) \<and>
         (\<forall>obj. find (\<lambda>obj. obj_id obj = oid) (space_objects s) = Some obj \<longrightarrow>
            (\<exists>snap. get_object_by_id s' oid = Some snap \<and> get_object s' oid = Inr snap \<and>
               ser_id snap = oid \<and> ser_name snap = name obj \<and> ser_type snap = obj_type obj))"
proof -
  note same = ticks_identity [OF assms]
  have "get_object_by_id s' oid = None" if "oid \<notin> obj_id ` set (space_objects s)"
  proof -
    have "fst ` set (map identity_fields (space_objects s)) = obj_id ` set (space_objects s)"
      by (force simp: identity_fields_def)
    with that show ?thesis
      by (simp add: get_object_by_id_def find_by_id_None same)
  qed
  moreover have "\<exists>snap. get_object_by_id s' oid = Some snap \<and> ser_id snap = oid \<and>
      ser_name snap = name obj \<and> ser_type snap = obj_type obj"
    if "find (\<lambda>obj. obj_id obj = oid) (space_objects s) = Some obj" for obj
    using find_by_id_Some [OF same that] by (simp add: get_object_by_id_def)
  ultimately show ?thesis
    by (auto simp: get_object_def)
qed

theorem get_object_by_id_stable_witness:
  "\<exists>s'. ticks quiet_world [60, 30] (init quiet_world) = Inr s' \<and>
     get_object s' ''99999'' = Inl (HTTPException 404 ''Object not found'') \<and>
     (\<exists>snap. get_object s' ''48274'' = Inr snap \<and> ser_id snap = ''48274'' \<and>
        ser_name snap = ''COSMOS 2251 DEB'' \<and> ser_type snap = ''debris'')"
proof -
  from ticks_on_orbit [OF init_on_orbit, of quiet_world "[60, 30]"] obtain s'
    where t: "ticks quiet_world [60, 30] (init quiet_world) = Inr s'" by blast
  have a: "''99999'' \<notin> obj_id ` set (space_objects (init quiet_world))"
    by (simp add: init_def)
  have b: "find (\<lambda>obj. obj_id obj = ''48274'') (space_objects (init quiet_world)) =
      Some (space_objects (init quiet_world) ! 1)"
    by (simp add: init_def)
  have c: "name (space_objects (init quiet_world) ! 1) = ''COSMOS 2251 DEB''"
    "obj_type (space_objects (init quiet_world) ! 1) = ''debris''"
    by (simp_all add: init_def)
  from get_object_by_id_stable [OF t, of "''99999''"] a
  have 1: "get_object s' ''99999'' = Inl (HTTPException 404 ''Object not found'')" by blast
  from get_object_by_id_stable [OF t, of "''48274''"] b
  have 2: "\<exists>snap. get_object s' ''48274'' = Inr snap \<and> ser_id snap = ''48274'' \<and>
        ser_name snap = name (space_objects (init quiet_world) ! 1) \<and>
        ser_type snap = obj_type (space_objects (init quiet_world) ! 1)" by blast
  from t 1 2 show ?thesis by (simp only: c) blast
qed

section \<open>The update loop of \<open>main.py\<close>\<close>

lemma send_to_clients_propagator [simp]:
  "the_propagator (send_to_clients w clients sv) = the_propagator sv"
  by (induction clients arbitrary: sv) (simp_all add: Let_def)

lemma task_runs_on_orbit:
  assumes "list_all on_orbit (space_objects (the_propagator sv))"
  shows "\<exists>sv'. update_orbits_task w n sv = Inr sv' \<and>
           list_all on_orbit (space_objects (the_propagator sv'))"
  using assms
proof (induction n arbitrary: sv)
  case 0
  then show ?case by simp
next
  case (Suc n)
  from update_on_orbit [OF Suc.prems, of w 60] obtain p objs als where
    u: "update w 60 (the_propagator sv) = Inr (p, objs, als)"
    and p: "list_all on_orbit (space_objects p)" by blast
  let ?sv1 = "sv\<lparr>the_propagator := p\<rparr>"
  let ?sv2 = "if connected_clients ?sv1 \<noteq> []
              then send_to_clients w (connected_clients ?sv1) ?sv1 else ?sv1"
  have "list_all on_orbit (space_objects (the_propagator ?sv2))"
    using p by simp
  from Suc.IH [OF this] show ?case
    by (simp add: u Let_def)
qed

lemma send_to_clients_failure:
  assumes "send_raises w (send_calls sv)"
  shows "send_to_clients w [client] sv =
     sv\<lparr>send_calls := Suc (send_calls sv),
        error_log := error_log sv @ [''Error sending to client''],
        connected_clients := remove1 client (connected_clients sv)\<rparr>"
  using assms by (simp add: Let_def)

text \<open>
  Claim C5 does not hold as stated: \<open>update_orbits_task\<close> has no handler around
  \<open>propagator.update()\<close>. What holds: an exception raised by \<open>update\<close> in an iteration
  leaves the loop and ends the task with that exception; when every object of the catalog
  is on its orbit (as in the catalog of \<open>__init__\<close>) no iteration raises, so the loop is
  still running after any number of iterations, whatever the sends do; and a send that
  raises is logged and its client removed.
\<close>

theorem scheduler_stops_on_tick_fault:
  "(update w 60 (the_propagator sv) = Inl e \<longrightarrow> update_orbits_task w (Suc n) sv = Inl e) \<and>
   (list_all on_orbit (space_objects (the_propagator sv)) \<longrightarrow>
      (\<exists>sv'. update_orbits_task w n sv = Inr sv')) \<and>
   (send_raises w (send_calls sv) \<longrightarrow>
      send_to_clients w [client] sv =
        sv\<lparr>send_calls := Suc (send_calls sv),
           error_log := error_log sv @ [''Error sending to client''],
           connected_clients := remove1 client (connected_clients sv)\<rparr>)"
  using task_runs_on_orbit [of sv w n] send_to_clients_failure [of w sv client] by auto

text \<open>
  With an object at the origin, \<open>z / r\<close> in \<open>_update_position\<close> divides by zero, and the
  first iteration ends the task.
\<close>

theorem scheduler_stops_on_tick_fault_counterexample:
  "update_orbits_task flaky_world (Suc 0) broken_server = Inl ZeroDivisionError"
  by (simp add: broken_server_def example_state_def example_object_def update_def
      update_position_def)

theorem scheduler_stops_on_tick_fault_witness:
  "update flaky_world 60 (the_propagator broken_server) = Inl ZeroDivisionError \<and>
   update_orbits_task flaky_world 5 broken_server = Inl ZeroDivisionError \<and>
   (\<exists>sv'. update_orbits_task flaky_world 1000 (running_server flaky_world) = Inr sv')"
proof -
  have a: "update flaky_world 60 (the_propagator broken_server) = Inl ZeroDivisionError"
    by (simp add: broken_server_def example_state_def example_object_def update_def
        update_position_def)
  have b: "list_all on_orbit (space_objects (the_propagator (running_server flaky_world)))"
    by (simp add: running_server_def init_on_orbit)
  from scheduler_stops_on_tick_fault [of flaky_world broken_server ZeroDivisionError 4] a
  have 1: "update_orbits_task flaky_world 5 broken_server = Inl ZeroDivisionError"
    by (simp add: eval_nat_numeral)
  from scheduler_stops_on_tick_fault [of flaky_world "running_server flaky_world" _ 1000] b
  have 2: "\<exists>sv'. update_orbits_task flaky_world 1000 (running_server flaky_world) = Inr sv'"
    by blast
  from a 1 2 show ?thesis by blast
qed

section \<open>The alert cooldown\<close>

lemma alert_due_iff:
  "alert_due w i j s \<longleftrightarrow>
     high_risk (space_objects s ! i) (space_objects s ! j) \<and>
     last_alert_time s + 10 < clock w (now_calls s)"
  by (auto simp: alert_due_def high_risk_def)

lemma emitted_simps [simp]:
  "emitted [] = []"
  "emitted ((k, Some al) # evs) = al # emitted evs"
  "emitted ((k, None) # evs) = emitted evs"
  "emitted (xs @ ys) = emitted xs @ emitted ys"
  by (simp_all add: emitted_def List.map_filter_def)

lemma check_reads_simps [simp]:
  "check_reads [] = []"
  "check_reads ((k, Some al) # evs) = k # check_reads evs"
  "check_reads ((k, None) # evs) = check_reads evs"
  "check_reads (xs @ ys) = check_reads xs @ check_reads ys"
  by (simp_all add: check_reads_def)

lemma final_time_simps [simp]:
  "final_time w t [] = t"
  "final_time w t (k # ks) = final_time w (clock w k) ks"
  by (simp_all add: final_time_def)

lemma spaced_append:
  "spaced w t (xs @ ys) \<longleftrightarrow> spaced w t xs \<and> spaced w (final_time w t xs) ys"
  by (induction xs arbitrary: t) simp_all

lemma final_time_append:
  "final_time w t (xs @ ys) = final_time w (final_time w t xs) ys"
  by (induction xs arbitrary: t) simp_all

lemma last_n_last_n: "last_n n (last_n n xs @ ys) = last_n n (xs @ ys)"
  by (cases "n \<le> length xs") (simp_all add: last_n_def add.commute)

lemma check_pairs_Cons [simp]:
  "check_pairs w ((i, j) # ps) s = check_pairs w ps (check_pair w i j s)"
  "check_pairs w [] s = s"
  by (simp_all add: check_pairs_def)

lemma pair_events_log:
  "alerts (check_pairs w ps s) =
     (if emitted (pair_events w ps s) = [] then alerts s
      else last_n 100 (alerts s @ emitted (pair_events w ps s)))"
proof (induction ps arbitrary: s)
  case Nil
  then show ?case by simp
next
  case (Cons p ps)
  obtain i j where p: "p = (i, j)" by (cases p)
  show ?case
  proof (cases "alert_due w i j s")
    case True
    then show ?thesis
      using last_n_last_n [of 100 "alerts s @ [pair_alert w i j s]"]
      by (simp add: p Cons.IH check_pair_due alert_due_iff)
  next
    case False
    then show ?thesis
      by (simp add: p Cons.IH check_pair_not_due)
  qed
qed

lemma pair_events_spaced:
  "spaced w (last_alert_time s) (check_reads (pair_events w ps s)) \<and>
   last_alert_time (check_pairs w ps s) =
     final_time w (last_alert_time s) (check_reads (pair_events w ps s))"
proof (induction ps arbitrary: s)
  case Nil
  then show ?case by simp
next
  case (Cons p ps)
  obtain i j where p: "p = (i, j)" by (cases p)
  show ?case
  proof (cases "alert_due w i j s")
    case True
    then show ?thesis
      using Cons.IH [of "check_pair w i j s"]
      by (simp add: p check_pair_due alert_due_iff)
  next
    case False
    then show ?thesis
      using Cons.IH [of "check_pair w i j s"]
      by (simp add: p check_pair_not_due)
  qed
qed

lemma pair_events_stamp:
  "(k, Some al) \<in> set (pair_events w ps s) \<Longrightarrow> timestamp al = Isoformat (clock w (Suc k))"
proof (induction ps arbitrary: s)
  case Nil
  then show ?case by simp
next
  case (Cons p ps)
  obtain i j where p: "p = (i, j)" by (cases p)
  from Cons.prems Cons.IH [of "check_pair w i j s"] show ?case
    by (auto simp: p pair_alert_def Let_def split: if_splits)
qed

lemma update_positions_Cons:
  assumes "update_position (gauss w (gauss_calls s)) (space_objects s ! k) dt = Inr obj"
  shows "update_positions w dt (k # ks) s =
     update_positions w dt ks
       (s\<lparr>space_objects := (space_objects s)[k := obj\<lparr>last_update := clock w (now_calls s)\<rparr>],
          gauss_calls := Suc (gauss_calls s), now_calls := Suc (now_calls s)\<rparr>)"
proof -
  have eq: "(space_objects s)[k := ((space_objects s)[k := obj] ! k)\<lparr>last_update := t\<rparr>]
      = (space_objects s)[k := obj\<lparr>last_update := t\<rparr>]" for t
    by (cases "k < length (space_objects s)") (simp_all add: list_update_beyond)
  show ?thesis
    by (simp add: assms now_def eq)
      (rule arg_cong [where f = "update_positions w dt ks"], rule propagator.equality, simp_all)
qed

lemma update_positions_frame:
  assumes "update_positions w dt ks s = Inr s'"
  shows "alerts s' = alerts s \<and> last_alert_time s' = last_alert_time s \<and>
         now_calls s' = now_calls s + length ks \<and>
         length (space_objects s') = length (space_objects s)"
  using assms
proof (induction ks arbitrary: s)
  case Nil
  then show ?case by simp
next
  case (Cons k ks)
  from Cons.prems obtain obj where
    u: "update_position (gauss w (gauss_calls s)) (space_objects s ! k) dt = Inr obj"
    by (auto split: sum.splits)
  from Cons.prems Cons.IH show ?case
    unfolding update_positions_Cons [OF u] by fastforce
qed

lemma update_cases:
  "(\<exists>e. update_positions w dt [0..<length (space_objects s)] s = Inl e \<and> update w dt s = Inl e) \<or>
   (\<exists>s1. update_positions w dt [0..<length (space_objects s)] s = Inr s1 \<and>
      update w dt s =
        Inr (check_conjunctions w s1, get_objects (check_conjunctions w s1),
             get_alerts (check_conjunctions w s1)))"
  by (cases "update_positions w dt [0..<length (space_objects s)] s")
     (simp_all add: update_def Let_def)

lemma tick_events_failed:
  "update w dt s = Inl e \<Longrightarrow> tick_events w dt s = []"
  using update_cases [of w dt s] by (auto simp: tick_events_def)

lemma tick_events_log:
  assumes "update w dt s = Inr (s', objs, als)"
  shows "alerts s' =
     (if emitted (tick_events w dt s) = [] then alerts s
      else last_n 100 (alerts s @ emitted (tick_events w dt s)))"
proof -
  from assms update_cases [of w dt s] obtain s1 where
    u: "update_positions w dt [0..<length (space_objects s)] s = Inr s1"
    and s': "s' = check_conjunctions w s1" by auto
  let ?s0 = "s1\<lparr>space_objects := map without_risk (space_objects s1)\<rparr>"
  have "alerts s' = alerts (check_pairs w (pairs (length (space_objects s1))) ?s0)"
    by (simp add: s' check_conjunctions_pairs)
  then show ?thesis
    using update_positions_frame [OF u]
    by (simp add: pair_events_log tick_events_def u)
qed

lemma tick_events_spaced:
  "spaced w (last_alert_time s) (check_reads (tick_events w dt s)) \<and>
   (\<forall>s' objs als. update w dt s = Inr (s', objs, als) \<longrightarrow>
      last_alert_time s' = final_time w (last_alert_time s) (check_reads (tick_events w dt s)))"
proof (cases "update_positions w dt [0..<length (space_objects s)] s")
  case (Inl e)
  then show ?thesis by (simp add: tick_events_def update_def)
next
  case (Inr s1)
  let ?s0 = "s1\<lparr>space_objects := map without_risk (space_objects s1)\<rparr>"
  have t: "last_alert_time ?s0 = last_alert_time s"
    using update_positions_frame [OF Inr] by simp
  from pair_events_spaced [of w ?s0 "pairs (length (space_objects s1))"] show ?thesis
    by (simp add: tick_events_def update_def Inr Let_def check_conjunctions_pairs t)
qed

lemma tick_events_stamp:
  "(k, Some al) \<in> set (tick_events w dt s) \<Longrightarrow> timestamp al = Isoformat (clock w (Suc k))"
  by (auto simp: tick_events_def split: sum.splits dest: pair_events_stamp)

lemma run_events_log:
  assumes "ticks w dts s = Inr s'"
  shows "alerts s' =
     (if emitted (run_events w dts s) = [] then alerts s
      else last_n 100 (alerts s @ emitted (run_events w dts s)))"
  using assms
proof (induction dts arbitrary: s)
  case Nil
  then show ?case by simp
next
  case (Cons dt dts)
  from Cons.prems obtain s1 objs als where u: "update w dt s = Inr (s1, objs, als)"
    and t: "ticks w dts s1 = Inr s'"
    by (auto split: sum.splits)
  show ?case
    using tick_events_log [OF u] Cons.IH [OF t]
      last_n_last_n [of 100 "alerts s @ emitted (tick_events w dt s)" "emitted (run_events w dts s1)"]
    by (simp add: u)
qed

lemma run_events_spaced:
  "spaced w (last_alert_time s) (check_reads (run_events w dts s)) \<and>
   (\<forall>s'. ticks w dts s = Inr s' \<longrightarrow>
      last_alert_time s' = final_time w (last_alert_time s) (check_reads (run_events w dts s)))"
proof (induction dts arbitrary: s)
  case Nil
  then show ?case by simp
next
  case (Cons dt dts)
  show ?case
  proof (cases "update w dt s")
    case (Inl e)
    then show ?thesis using tick_events_spaced [of w s dt] by simp
  next
    case (Inr r)
    obtain s1 objs als where r: "r = (s1, objs, als)" by (cases r)
    from tick_events_spaced [of w s dt] Cons.IH [of s1] show ?thesis
      by (simp add: Inr r spaced_append final_time_append)
  qed
qed

lemma run_events_stamp:
  "(k, Some al) \<in> set (run_events w dts s) \<Longrightarrow> timestamp al = Isoformat (clock w (Suc k))"
proof (induction dts arbitrary: s)
  case Nil
  then show ?case by simp
next
  case (Cons dt dts)
  then show ?case
    by (auto split: sum.splits dest: tick_events_stamp)
qed

lemma spaced_pairwise:
  assumes "spaced w t ks"
  shows "(\<forall>k\<in>set ks. t + 10 < clock w k) \<and>
         (\<forall>a b. a < b \<and> b < length ks \<longrightarrow> clock w (ks ! a) + 10 < clock w (ks ! b))"
  using assms
proof (induction ks arbitrary: t)
  case Nil
  then show ?case by simp
next
  case (Cons k ks)
  then have t: "t + 10 < clock w k" and s: "spaced w (clock w k) ks" by simp_all
  note ih = Cons.IH [OF s]
  have 1: "\<forall>k'\<in>set (k # ks). t + 10 < clock w k'"
    using t ih by fastforce
  have 2: "clock w ((k # ks) ! a) + 10 < clock w ((k # ks) ! b)"
    if "a < b" "b < length (k # ks)" for a b
  proof (cases a)
    case 0
    with that obtain b' where "b = Suc b'" "b' < length ks" by (cases b) auto
    with 0 ih show ?thesis by simp
  next
    case (Suc a')
    with that obtain b' where "b = Suc b'" "a' < b'" "b' < length ks" by (cases b) auto
    with Suc ih show ?thesis by simp
  qed
  from 1 2 show ?case by blast
qed

lemma check_pair_fresh:
  assumes "mono (clock w)" "fresh w s" "\<not> high_risk (space_objects s ! i) (space_objects s ! j)"
  shows "fresh w (check_pair w i j s)"
proof -
  have nd: "\<not> alert_due w i j s" using assms(3) by (simp add: alert_due_iff)
  from assms(2) obtain k where "k \<le> now_calls s" "last_alert_time s = clock w k - 300"
    by (auto simp: fresh_def)
  then show ?thesis
    unfolding fresh_def check_pair_not_due [OF nd]
    by (intro exI [of _ k]) simp
qed

lemma fresh_due:
  assumes "mono (clock w)" "fresh w s" "high_risk (space_objects s ! i) (space_objects s ! j)"
  shows "alert_due w i j s"
proof -
  from assms(2) obtain k where k: "k \<le> now_calls s" "last_alert_time s = clock w k - 300"
    by (auto simp: fresh_def)
  from assms(1) k(1) have "clock w k \<le> clock w (now_calls s)" by (rule monoD)
  with k(2) assms(3) show ?thesis by (simp add: alert_due_iff)
qed

lemma pair_events_first:
  assumes "mono (clock w)" "fresh w s"
  shows "(pair_events w ps s = [] \<longrightarrow> fresh w (check_pairs w ps s)) \<and>
         (pair_events w ps s \<noteq> [] \<longrightarrow> snd (hd (pair_events w ps s)) \<noteq> None)"
  using assms(2)
proof (induction ps arbitrary: s)
  case Nil
  then show ?case by simp
next
  case (Cons p ps)
  obtain i j where p: "p = (i, j)" by (cases p)
  show ?case
  proof (cases "high_risk (space_objects s ! i) (space_objects s ! j)")
    case True
    with fresh_due [OF assms(1) Cons.prems] show ?thesis by (simp add: p)
  next
    case False
    from Cons.IH [OF check_pair_fresh [OF assms(1) Cons.prems False]] False
    show ?thesis by (simp add: p)
  qed
qed

lemma tick_events_first:
  assumes "mono (clock w)" "fresh w s"
  shows "(tick_events w dt s = [] \<longrightarrow>
            (\<forall>s' objs als. update w dt s = Inr (s', objs, als) \<longrightarrow> fresh w s')) \<and>
         (tick_events w dt s \<noteq> [] \<longrightarrow> snd (hd (tick_events w dt s)) \<noteq> None)"
proof (cases "update_positions w dt [0..<length (space_objects s)] s")
  case (Inl e)
  then show ?thesis by (simp add: tick_events_def update_def)
next
  case (Inr s1)
  let ?s0 = "s1\<lparr>space_objects := map without_risk (space_objects s1)\<rparr>"
  from assms(2) obtain k where "k \<le> now_calls s" "last_alert_time s = clock w k - 300"
    by (auto simp: fresh_def)
  with update_positions_frame [OF Inr] have "fresh w ?s0"
    unfolding fresh_def by (intro exI [of _ k]) simp
  from pair_events_first [OF assms(1) this, of "pairs (length (space_objects s1))"]
  show ?thesis
    by (simp add: tick_events_def update_def Inr Let_def check_conjunctions_pairs)
qed

lemma run_events_first:
  assumes "mono (clock w)" "fresh w s"
  shows "(run_events w dts s = [] \<longrightarrow> (\<forall>s'. ticks w dts s = Inr s' \<longrightarrow> fresh w s')) \<and>
         (run_events w dts s \<noteq> [] \<longrightarrow> snd (hd (run_events w dts s)) \<noteq> None)"
  using assms(2)
proof (induction dts arbitrary: s)
  case Nil
  then show ?case by simp
next
  case (Cons dt dts)
  note t = tick_events_first [OF assms(1) Cons.prems, of dt]
  show ?case
  proof (cases "tick_events w dt s")
    case (Cons ev evs)
    with t show ?thesis by simp
  next
    case Nil
    show ?thesis
    proof (cases "update w dt s")
      case (Inl e)
      then show ?thesis by (simp add: Nil)
    next
      case (Inr r)
      obtain s1 objs als where r: "r = (s1, objs, als)" by (cases r)
      from t Nil Inr r have "fresh w s1" by simp
      from Cons.IH [OF this] show ?thesis by (simp add: Nil Inr r)
    qed
  qed
qed

lemma fresh_init: "fresh w ((init w)\<lparr>space_objects := objs\<rparr>)"
  unfolding fresh_def by (intro exI [of _ 3]) (simp add: init_def)

lemma calculate_distance_same: "calculate_distance p p = 0"
proof -
  have "sum_list (map (\<lambda>(a, b). (a - b)\<^sup>2) (zip p p)) = 0"
    by (induction p) simp_all
  then show ?thesis by (simp add: calculate_distance_def)
qed

lemma same_place_high_risk:
  assumes "position a = position b" "velocity a = 7.66" "velocity b = 7.7"
  shows "high_risk a b"
  using assms
  by (simp add: high_risk_def within_threshold_def pair_entry_def Let_def
      calculate_distance_same calculate_risk_level_def)

lemma same_place_update:
  assumes "position a = position b" "altitude a = altitude b"
    and "update_position g a dt = Inr a'"
  shows "update_position g b dt = Inr (b\<lparr>position := position a'\<rparr>)"
  using assms
  by (auto simp: update_position_def Let_def split: list.splits if_splits)

lemma twins_cong:
  assumes "map without_risk (space_objects s') = map without_risk (space_objects s)" "twins s"
  shows "twins s'"
proof -
  from assms(2) obtain a b where ab: "space_objects s = [a, b]" "position a = position b"
    "altitude a = altitude b" "on_orbit a" "velocity a = 7.66" "velocity b = 7.7"
    by (auto simp: twins_def)
  from assms(1) ab(1) obtain a' b' where s': "space_objects s' = [a', b']"
    and a': "without_risk a' = without_risk a" and b': "without_risk b' = without_risk b"
    by (auto simp: map_eq_Cons_conv)
  have "position a' = position a" "altitude a' = altitude a" "velocity a' = velocity a"
    "on_orbit a' = on_orbit a"
    using a' by (metis without_risk_simps on_orbit_without_risk)+
  moreover have "position b' = position b" "altitude b' = altitude b" "velocity b' = velocity b"
    using b' by (metis without_risk_simps)+
  ultimately show ?thesis
    using ab s' by (simp add: twins_def)
qed

lemma twins_update_positions:
  assumes "twins s" "\<forall>k. gauss w k = 0"
  shows "\<exists>s1. update_positions w dt [0..<length (space_objects s)] s = Inr s1 \<and> twins s1"
proof -
  from assms(1) obtain a b where ab: "space_objects s = [a, b]" "position a = position b"
    "altitude a = altitude b" "on_orbit a" "velocity a = 7.66" "velocity b = 7.7"
    by (auto simp: twins_def)
  from update_position_on_orbit [OF ab(4), of 0 dt] obtain a' where
    a': "update_position 0 a dt = Inr a'" "on_orbit a'" "a'\<lparr>position := position a\<rparr> = a"
    by blast
  have b': "update_position 0 b dt = Inr (b\<lparr>position := position a'\<rparr>)"
    by (rule same_place_update [OF ab(2,3) a'(1)])
  have fa: "altitude a' = altitude a" "velocity a' = velocity a"
    using a'(3) by (metis space_object.select_convs(5,8) space_object.surjective
        space_object.update_convs(7))+
  have upt: "[0..<length (space_objects s)] = [0, 1]"
    by (simp add: ab(1) upt_conv_Cons)
  let ?a = "a'\<lparr>last_update := clock w (now_calls s)\<rparr>"
  let ?b = "b\<lparr>position := position a', last_update := clock w (Suc (now_calls s))\<rparr>"
  have "\<exists>s1. update_positions w dt [0, 1] s = Inr s1 \<and> space_objects s1 = [?a, ?b]"
    using assms(2) a'(1) b'
    by (subst update_positions_Cons [where obj = a'], simp add: ab(1),
        subst update_positions_Cons [where obj = "b\<lparr>position := position a'\<rparr>"])
      (simp_all add: ab(1))
  then obtain s1 where s1: "update_positions w dt [0, 1] s = Inr s1" "space_objects s1 = [?a, ?b]"
    by blast
  have "twins s1"
    unfolding twins_def using s1(2) a'(2) fa ab by (simp add: on_orbit_def)
  with s1(1) show ?thesis by (auto simp: upt)
qed

lemma pairs_2: "pairs 2 = [(0, 1)]"
  by (simp add: pairs_def upt_conv_Cons numeral_2_eq_2)

lemma twins_tick:
  assumes "twins s" "\<forall>k. gauss w k = 0"
  shows "\<exists>s' objs als. update w dt s = Inr (s', objs, als) \<and> twins s' \<and>
     (if last_alert_time s + 10 < clock w (now_calls s + 2)
      then (\<exists>al. tick_events w dt s = [(now_calls s + 2, Some al)]) \<and>
           last_alert_time s' = clock w (now_calls s + 2) \<and> now_calls s' = now_calls s + 4
      else tick_events w dt s = [(now_calls s + 2, None)] \<and>
           last_alert_time s' = last_alert_time s \<and> now_calls s' = now_calls s + 3)"
proof -
  from twins_update_positions [OF assms, of dt] obtain s1 where
    u: "update_positions w dt [0..<length (space_objects s)] s = Inr s1" and t1: "twins s1"
    by blast
  from assms(1) have len: "length (space_objects s) = 2" by (auto simp: twins_def)
  note fr = update_positions_frame [OF u]
  note u2 = u [unfolded len]
  let ?s0 = "s1\<lparr>space_objects := map without_risk (space_objects s1)\<rparr>"
  let ?s' = "check_pair w 0 1 ?s0"
  from t1 obtain a b where ab: "space_objects s1 = [a, b]" "position a = position b"
    "velocity a = 7.66" "velocity b = 7.7"
    by (auto simp: twins_def)
  have hr: "high_risk (space_objects ?s0 ! 0) (space_objects ?s0 ! 1)"
    using ab by (simp add: same_place_high_risk)
  have upd: "update w dt s = Inr (?s', get_objects ?s', get_alerts ?s')"
    using fr len by (simp add: update_def u2 Let_def check_conjunctions_pairs pairs_2)
  have ev: "tick_events w dt s =
      [(now_calls ?s0, if alert_due w 0 1 ?s0 then Some (pair_alert w 0 1 ?s0) else None)]"
    using fr len hr by (simp add: tick_events_def u2 pairs_2)
  have "map without_risk (space_objects ?s') = map without_risk (space_objects s1)"
    by (simp add: check_pair_without_risk without_risk_idem)
  then have t': "twins ?s'" using t1 by (rule twins_cong)
  have due: "alert_due w 0 1 ?s0 \<longleftrightarrow> last_alert_time s + 10 < clock w (now_calls s + 2)"
    using hr fr len by (simp add: alert_due_iff)
  show ?thesis
  proof (cases "alert_due w 0 1 ?s0")
    case True
    from check_pair_due [OF True] fr len True due t' show ?thesis
      by (simp add: upd ev)
  next
    case False
    from check_pair_not_due [OF False] fr len False due t' hr show ?thesis
      by (simp add: upd ev high_risk_def)
  qed
qed

lemma mono_clock_of:
  assumes "sorted xs" "xs \<noteq> []"
  shows "mono (clock_of xs)"
proof (rule monoI)
  fix a b :: nat
  assume ab: "a \<le> b"
  have l: "last xs = xs ! (length xs - 1)" using assms(2) by (rule last_conv_nth)
  show "clock_of xs a \<le> clock_of xs b"
    using assms ab unfolding clock_of_def l
    by (auto intro!: sorted_nth_mono)
qed

lemma twins_close_pair: "twins close_pair"
proof -
  have "magnitude [6779, 0, 0] = \<bar>6779\<bar>"
    using magnitude_sphere [of 6779 "pi / 2" 0] by simp
  then show ?thesis
    by (simp add: twins_def close_pair_def example_state_def object_A_def object_B_def
        example_object_def on_orbit_def EARTH_RADIUS_def)
qed

text \<open>
  Claim C3 does not hold as stated: the cooldown compares the clock reading taken in
  \<open>_check_conjunctions\<close>, while the timestamp of an alert is a second reading taken in
  \<open>_generate_alert\<close>. What holds, for any catalog, any clock and any sequence of \<open>update\<close>
  calls: the readings used for the cooldown checks of the emitted alerts are each more
  than 10 s after \<open>last_alert_time\<close> at the start and pairwise more than 10 s apart,
  whatever the number of High-risk pairs in a tick; the timestamp of an emitted alert is
  the reading that follows its check; the log after the calls is the last 100 entries of
  the old log followed by the emitted alerts; and with a non-decreasing clock, starting
  before any alert was emitted, the first High-risk pair evaluated emits its alert. The
  state built by \<open>__init__\<close> is such a start, for any catalog.
\<close>

theorem alert_cooldown_on_check_times:
  "(\<forall>k\<in>set (check_reads (run_events w dts s)). last_alert_time s + 10 < clock w k) \<and>
   (\<forall>a b. a < b \<and> b < length (check_reads (run_events w dts s)) \<longrightarrow>
      clock w (check_reads (run_events w dts s) ! a) + 10 <
      clock w (check_reads (run_events w dts s) ! b)) \<and>
   (\<forall>k al. (k, Some al) \<in> set (run_events w dts s) \<longrightarrow>
      timestamp al = Isoformat (clock w (Suc k))) \<and>
   (\<forall>s'. ticks w dts s = Inr s' \<longrightarrow>
      alerts s' = (if emitted (run_events w dts s) = [] then alerts s
                   else last_n 100 (alerts s @ emitted (run_events w dts s)))) \<and>
   (mono (clock w) \<and> fresh w s \<and> run_events w dts s \<noteq> [] \<longrightarrow>
      snd (hd (run_events w dts s)) \<noteq> None) \<and>
   fresh w ((init w)\<lparr>space_objects := objs\<rparr>)"
  using spaced_pairwise [of w "last_alert_time s" "check_reads (run_events w dts s)"]
    run_events_spaced [of w s dts] run_events_stamp [of _ _ w dts s]
    run_events_log [of w dts s] run_events_first [of w s dts] fresh_init [of w objs]
  by blast

lemma twins_tick_emit:
  assumes "twins s" "\<forall>k. gauss w k = 0" "now_calls s = n"
    and "last_alert_time s + 10 < clock w (n + 2)"
  shows "\<exists>s' objs als al. update w dt s = Inr (s', objs, als) \<and> twins s' \<and>
     tick_events w dt s = [(n + 2, Some al)] \<and>
     last_alert_time s' = clock w (n + 2) \<and> now_calls s' = n + 4"
  using twins_tick [OF assms(1,2), of dt] assms(4) unfolding assms(3)
  by (simp only: if_True) blast

lemma twins_tick_suppress:
  assumes "twins s" "\<forall>k. gauss w k = 0" "now_calls s = n"
    and "\<not> last_alert_time s + 10 < clock w (n + 2)"
  shows "\<exists>s' objs als. update w dt s = Inr (s', objs, als) \<and> twins s' \<and>
     tick_events w dt s = [(n + 2, None)] \<and>
     last_alert_time s' = last_alert_time s \<and> now_calls s' = n + 3"
  using twins_tick [OF assms(1,2), of dt] assms(4) unfolding assms(3)
  by (simp only: if_False)

text \<open>
  Two ticks on two objects at the same place, under a non-decreasing clock: the checks
  read 0 s and 10.0005 s, the timestamps 0.001 s and 10.0006 s, less than 10 s apart.
\<close>

theorem alert_cooldown_on_check_times_counterexample:
  "mono (clock slow_stamp_world) \<and>
   (case ticks slow_stamp_world [60, 60] close_pair of
      Inl e \<Rightarrow> []
    | Inr s \<Rightarrow> map timestamp (alerts s)) = [Isoformat 0.001, Isoformat 10.0006] \<and>
   (10.0006 - 0.001 :: real) < 10"
proof -
  let ?w = slow_stamp_world
  have m: "mono (clock ?w)"
    by (simp add: slow_stamp_world_def mono_clock_of)
  have g: "\<forall>k. gauss ?w k = 0" by (simp add: slow_stamp_world_def)
  have c: "clock ?w (0 + 2) = 0" "clock ?w (Suc (0 + 2)) = 0.001"
    "clock ?w (4 + 2) = 10.0005" "clock ?w (Suc (4 + 2)) = 10.0006"
    by (simp_all add: slow_stamp_world_def clock_of_def)
  have s0: "last_alert_time close_pair = - 300" "now_calls close_pair = 0" "alerts close_pair = []"
    by (simp_all add: close_pair_def example_state_def)
  have "last_alert_time close_pair + 10 < clock ?w (0 + 2)"
    unfolding c s0 by simp
  from twins_tick_emit [OF twins_close_pair g s0(2) this, of 60]
  obtain s1 o1 a1 al where 1: "update ?w 60 close_pair = Inr (s1, o1, a1)" "twins s1"
    "tick_events ?w 60 close_pair = [(0 + 2, Some al)]"
    "last_alert_time s1 = clock ?w (0 + 2)" "now_calls s1 = 0 + 4"
    by blast
  have n1: "now_calls s1 = 4" using 1(5) by simp
  have "last_alert_time s1 + 10 < clock ?w (4 + 2)"
    unfolding 1(4) c by simp
  from twins_tick_emit [OF 1(2) g n1 this, of 60]
  obtain s2 o2 a2 al' where 2: "update ?w 60 s1 = Inr (s2, o2, a2)"
    "tick_events ?w 60 s1 = [(4 + 2, Some al')]"
    by blast
  have t: "ticks ?w [60, 60] close_pair = Inr s2" by (simp add: 1 2)
  have evs: "run_events ?w [60, 60] close_pair = [(0 + 2, Some al), (4 + 2, Some al')]"
    by (simp add: 1 2)
  have "timestamp al = Isoformat (clock ?w (Suc (0 + 2)))"
    by (rule run_events_stamp [of _ _ ?w "[60, 60]" close_pair]) (simp only: evs, simp)
  moreover have "timestamp al' = Isoformat (clock ?w (Suc (4 + 2)))"
    by (rule run_events_stamp [of _ _ ?w "[60, 60]" close_pair]) (simp only: evs, simp)
  ultimately have st: "timestamp al = Isoformat 0.001" "timestamp al' = Isoformat 10.0006"
    by (simp_all only: c)
  have "alerts s2 = [al, al']"
    using run_events_log [OF t] unfolding evs by (simp add: s0 last_n_def)
  with t st m show ?thesis by simp
qed

lemma mono_quiet: "mono (clock quiet_world)"
  by (rule monoI) (simp add: quiet_world_def)

theorem alert_cooldown_on_check_times_witness:
  "mono (clock quiet_world) \<and> fresh quiet_world close_pair \<and>
   (\<exists>al. run_events quiet_world [60, 60] close_pair = [(2, Some al), (6, None)] \<and>
      timestamp al = Isoformat 3) \<and>
   snd (hd (run_events quiet_world [60, 60] close_pair)) \<noteq> None \<and>
   (\<exists>s'. ticks quiet_world [60, 60] close_pair = Inr s' \<and> length (alerts s') = 1)"
proof -
  let ?w = quiet_world
  have g: "\<forall>k. gauss ?w k = 0" by (simp add: quiet_world_def)
  have s0: "last_alert_time close_pair = - 300" "now_calls close_pair = 0" "alerts close_pair = []"
    by (simp_all add: close_pair_def example_state_def)
  have f: "fresh ?w close_pair"
    unfolding fresh_def by (intro exI [of _ 0]) (simp add: s0 quiet_world_def)
  have c: "clock ?w k = real k" for k by (simp add: quiet_world_def)
  have "last_alert_time close_pair + 10 < clock ?w (0 + 2)"
    by (simp add: c s0)
  from twins_tick_emit [OF twins_close_pair g s0(2) this, of 60]
  obtain s1 o1 a1 al where 1: "update ?w 60 close_pair = Inr (s1, o1, a1)" "twins s1"
    "tick_events ?w 60 close_pair = [(0 + 2, Some al)]"
    "last_alert_time s1 = clock ?w (0 + 2)" "now_calls s1 = 0 + 4"
    by blast
  have n1: "now_calls s1 = 4" using 1(5) by simp
  have "\<not> last_alert_time s1 + 10 < clock ?w (4 + 2)"
    by (simp add: 1(4) c)
  from twins_tick_suppress [OF 1(2) g n1 this, of 60]
  obtain s2 o2 a2 where 2: "update ?w 60 s1 = Inr (s2, o2, a2)"
    "tick_events ?w 60 s1 = [(4 + 2, None)]"
    by blast
  have t: "ticks ?w [60, 60] close_pair = Inr s2" by (simp add: 1 2)
  have evs: "run_events ?w [60, 60] close_pair = [(2, Some al), (6, None)]"
    by (simp add: 1 2)
  have ne: "run_events ?w [60, 60] close_pair \<noteq> []"
    by (simp only: evs) simp
  note main = alert_cooldown_on_check_times [of ?w "[60, 60]" close_pair]
  have m3: "\<forall>k al. (k, Some al) \<in> set (run_events ?w [60, 60] close_pair) \<longrightarrow>
      timestamp al = Isoformat (clock ?w (Suc k))"
    using main by blast
  have m4: "alerts s2 = (if emitted (run_events ?w [60, 60] close_pair) = [] then alerts close_pair
      else last_n 100 (alerts close_pair @ emitted (run_events ?w [60, 60] close_pair)))"
    using main t by blast
  have hd: "snd (hd (run_events ?w [60, 60] close_pair)) \<noteq> None"
    using main mono_quiet f ne by blast
  from m3 have "timestamp al = Isoformat (clock ?w (Suc 2))"
    unfolding evs by simp
  then have st: "timestamp al = Isoformat 3" by (simp add: c)
  from m4 have "alerts s2 = [al]"
    unfolding evs by (simp add: s0 last_n_def)
  with t st hd evs mono_quiet f show ?thesis by simp
qed

section \<open>What the readers are handed\<close>

lemma preserves_refl: "preserves st st"
  by (simp add: preserves_def)

lemma preserves_trans:
  assumes "preserves st st1" "preserves st1 st2"
  shows "preserves st st2"
  using assms unfolding preserves_def
  by (metis (no_types, opaque_lifting) le_trans not_le order.strict_trans2)

lemma update_position_st_preserves:
  assumes "update_position_st g k dt st = Inr st'"
  shows "preserves st st' \<and> length (st_objects st') = length (st_objects st)"
  using assms
  by (auto simp: update_position_st_def alloc_def preserves_def Let_def split: sum.splits)

lemma update_positions_st_preserves:
  assumes "update_positions_st w dt ks st = Inr st'"
  shows "preserves st st' \<and> length (st_objects st') = length (st_objects st)"
  using assms
proof (induction ks arbitrary: st)
  case Nil
  then show ?case by (simp add: preserves_refl)
next
  case (Cons k ks)
  from Cons.prems obtain st1 where
    u: "update_position_st (gauss w (st_gauss_calls st)) k dt st = Inr st1"
    by (auto split: sum.splits)
  let ?st2 = "st1\<lparr>st_gauss_calls := Suc (st_gauss_calls st1), st_now_calls := Suc (st_now_calls st1),
      st_objects := (st_objects st1)
        [k := (st_objects st1 ! k)\<lparr>ref_last_update := clock w (st_now_calls st1)\<rparr>]\<rparr>"
  from Cons.prems have r: "update_positions_st w dt ks ?st2 = Inr st'"
    by (simp add: u now_st_def)
  note p1 = update_position_st_preserves [OF u]
  have "preserves st ?st2"
    using p1 by (simp add: preserves_def)
  with Cons.IH [OF r] p1 show ?case
    by (auto intro: preserves_trans)
qed

lemma clear_risks_fresh:
  "preserves st (clear_risks ks st) \<and>
   length (st_objects (clear_risks ks st)) = length (st_objects st) \<and>
   (\<forall>k<length (st_objects st).
      (k \<in> set ks \<longrightarrow> next_addr st \<le> ref_risk_objects (st_objects (clear_risks ks st) ! k)) \<and>
      (k \<notin> set ks \<longrightarrow> st_objects (clear_risks ks st) ! k = st_objects st ! k))"
proof (induction ks arbitrary: st)
  case Nil
  then show ?case by (simp add: preserves_refl)
next
  case (Cons k ks)
  let ?st1 = "st\<lparr>store := (store st)(next_addr st \<mapsto> Risks []), next_addr := Suc (next_addr st),
      st_objects := (st_objects st)[k := (st_objects st ! k)\<lparr>ref_risk_objects := next_addr st\<rparr>]\<rparr>"
  have step: "clear_risks (k # ks) st = clear_risks ks ?st1"
    by (simp add: alloc_def)
  have p: "preserves st ?st1" by (simp add: preserves_def)
  note ih = Cons.IH [of ?st1]
  have 1: "preserves st (clear_risks ks ?st1)"
    using p ih by (blast intro: preserves_trans)
  have 2: "length (st_objects (clear_risks ks ?st1)) = length (st_objects st)"
    using ih by simp
  have 3: "(k' \<in> set (k # ks) \<longrightarrow>
              next_addr st \<le> ref_risk_objects (st_objects (clear_risks ks ?st1) ! k')) \<and>
           (k' \<notin> set (k # ks) \<longrightarrow> st_objects (clear_risks ks ?st1) ! k' = st_objects st ! k')"
    if "k' < length (st_objects st)" for k'
  proof (cases "k' \<in> set ks")
    case True
    with ih that have "Suc (next_addr st) \<le> ref_risk_objects (st_objects (clear_risks ks ?st1) ! k')"
      by simp
    with True show ?thesis by simp
  next
    case False
    with ih that have "st_objects (clear_risks ks ?st1) ! k' = st_objects ?st1 ! k'"
      by simp
    with False that show ?thesis by (auto simp: nth_list_update)
  qed
  from 1 2 3 show ?case unfolding step by blast
qed

lemma generate_alert_st_frame:
  assumes "N \<le> next_addr st" "st_alerts st = A \<or> N \<le> st_alerts st"
  shows "N \<le> next_addr (generate_alert_st w oa ob d t st) \<and>
     (st_alerts (generate_alert_st w oa ob d t st) = A \<or>
      N \<le> st_alerts (generate_alert_st w oa ob d t st)) \<and>
     (\<forall>a<N. a \<noteq> A \<longrightarrow> store (generate_alert_st w oa ob d t st) a = store st a) \<and>
     st_objects (generate_alert_st w oa ob d t st) = st_objects st"
  using assms
  by (auto simp: generate_alert_st_def now_st_def alloc_def Let_def)

lemma append_risk_simps [simp]:
  "next_addr (append_risk a e st) = next_addr st"
  "st_alerts (append_risk a e st) = st_alerts st"
  "st_objects (append_risk a e st) = st_objects st"
  "st_last_alert_time (append_risk a e st) = st_last_alert_time st"
  "store (append_risk a e st) b = (if b = a then Some (Risks (risks_at st a @ [e])) else store st b)"
  by (simp_all add: append_risk_def)

lemma now_st_simps [simp]:
  "next_addr (snd (now_st w st)) = next_addr st"
  "st_alerts (snd (now_st w st)) = st_alerts st"
  "st_objects (snd (now_st w st)) = st_objects st"
  "st_last_alert_time (snd (now_st w st)) = st_last_alert_time st"
  "store (snd (now_st w st)) = store st"
  by (simp_all add: now_st_def)

lemma check_pair_st_frame:
  assumes "N \<le> next_addr st" "st_alerts st = A \<or> N \<le> st_alerts st" "risk_lists_fresh N st"
    and "i < length (st_objects st)" "j < length (st_objects st)"
  shows "N \<le> next_addr (check_pair_st w i j st) \<and>
     (st_alerts (check_pair_st w i j st) = A \<or> N \<le> st_alerts (check_pair_st w i j st)) \<and>
     risk_lists_fresh N (check_pair_st w i j st) \<and>
     length (st_objects (check_pair_st w i j st)) = length (st_objects st) \<and>
     (\<forall>a<N. a \<noteq> A \<longrightarrow> store (check_pair_st w i j st) a = store st a)"
proof -
  let ?o1 = "st_objects st ! i" and ?o2 = "st_objects st ! j"
  have r: "N \<le> ref_risk_objects ?o1" "N \<le> ref_risk_objects ?o2"
    using assms(3-5) by (simp_all add: risk_lists_fresh_def)
  have st3: "N \<le> next_addr (snd (now_st w (append_risk (ref_risk_objects ?o2) e2
                 (append_risk (ref_risk_objects ?o1) e1 st))))"
    "st_alerts (snd (now_st w (append_risk (ref_risk_objects ?o2) e2
                 (append_risk (ref_risk_objects ?o1) e1 st)))) = A \<or>
     N \<le> st_alerts (snd (now_st w (append_risk (ref_risk_objects ?o2) e2
                 (append_risk (ref_risk_objects ?o1) e1 st))))"
    for e1 e2
    using assms(1,2) by simp_all
  have below: "store (snd (now_st w (append_risk (ref_risk_objects ?o2) e2
                 (append_risk (ref_risk_objects ?o1) e1 st)))) a = store st a"
    if "a < N" for a e1 e2
    using r that by simp
  let ?d = "calculate_distance (floats_at st (ref_position ?o1)) (floats_at st (ref_position ?o2))"
  let ?v = "\<bar>ref_velocity ?o1 - ref_velocity ?o2\<bar>"
  let ?t = "max 0.1 (?d / (?v + 0.001))"
  let ?e1 = "\<lparr>object_id = ref_id ?o2, distance_km = ?d, velocity_kmps = ?v,
      time_to_conjunction = ?t, risk_level = calculate_risk_level ?d ?t\<rparr>"
  let ?e2 = "\<lparr>object_id = ref_id ?o1, distance_km = ?d, velocity_kmps = ?v,
      time_to_conjunction = ?t, risk_level = calculate_risk_level ?d ?t\<rparr>"
  let ?st2 = "append_risk (ref_risk_objects ?o2) ?e2 (append_risk (ref_risk_objects ?o1) ?e1 st)"
  let ?st3 = "snd (now_st w ?st2)"
  let ?c = "fst (now_st w ?st2)"
  let ?due = "risk_level ?e2 = ''High'' \<and> ?c - st_last_alert_time ?st3 > 10"
  have unfold: "check_pair_st w i j st =
      (if ?d < 100
       then if ?due
            then (generate_alert_st w ?o1 ?o2 ?d ?t ?st3)\<lparr>st_last_alert_time := ?c\<rparr>
            else ?st3
       else st)"
    by (simp only: check_pair_st_def Let_def split_beta)
  note g = generate_alert_st_frame [OF st3 [of ?e2 ?e1], where w = w and oa = "?o1"
      and ob = "?o2" and d = ?d and t = ?t]
  show ?thesis
  proof (cases "?d < 100")
    case False
    with assms show ?thesis by (simp only: unfold if_not_P [OF False]) simp
  next
    case near: True
    show ?thesis
    proof (cases ?due)
      case False
      have "check_pair_st w i j st = ?st3"
        by (simp only: unfold if_P [OF near] if_not_P [OF False])
      then show ?thesis
        using st3 [of ?e2 ?e1] below [of _ ?e2 ?e1] assms(3)
        by (simp add: risk_lists_fresh_def)
    next
      case True
      have "check_pair_st w i j st =
          (generate_alert_st w ?o1 ?o2 ?d ?t ?st3)\<lparr>st_last_alert_time := ?c\<rparr>"
        by (simp only: unfold if_P [OF near] if_P [OF True])
      then show ?thesis
        using g below [of _ ?e2 ?e1] assms(3)
        by (simp add: risk_lists_fresh_def)
    qed
  qed
qed

lemma check_pairs_st_frame:
  assumes "N \<le> next_addr st" "st_alerts st = A \<or> N \<le> st_alerts st" "risk_lists_fresh N st"
    and "\<forall>p\<in>set ps. fst p < length (st_objects st) \<and> snd p < length (st_objects st)"
  shows "N \<le> next_addr (fold (\<lambda>(i, j). check_pair_st w i j) ps st) \<and>
     (st_alerts (fold (\<lambda>(i, j). check_pair_st w i j) ps st) = A \<or>
      N \<le> st_alerts (fold (\<lambda>(i, j). check_pair_st w i j) ps st)) \<and>
     (\<forall>a<N. a \<noteq> A \<longrightarrow> store (fold (\<lambda>(i, j). check_pair_st w i j) ps st) a = store st a)"
  using assms
proof (induction ps arbitrary: st)
  case Nil
  then show ?case by simp
next
  case (Cons p ps)
  obtain i j where p: "p = (i, j)" by (cases p)
  have ij: "i < length (st_objects st)" "j < length (st_objects st)"
    using Cons.prems(4) p by auto
  note f = check_pair_st_frame [OF Cons.prems(1-3) ij, of w]
  have "\<forall>p\<in>set ps. fst p < length (st_objects (check_pair_st w i j st)) \<and>
      snd p < length (st_objects (check_pair_st w i j st))"
    using Cons.prems(4) f by simp
  with f have ih: "N \<le> next_addr (fold (\<lambda>(i, j). check_pair_st w i j) ps (check_pair_st w i j st)) \<and>
     (st_alerts (fold (\<lambda>(i, j). check_pair_st w i j) ps (check_pair_st w i j st)) = A \<or>
      N \<le> st_alerts (fold (\<lambda>(i, j). check_pair_st w i j) ps (check_pair_st w i j st))) \<and>
     (\<forall>a<N. a \<noteq> A \<longrightarrow>
        store (fold (\<lambda>(i, j). check_pair_st w i j) ps (check_pair_st w i j st)) a =
        store (check_pair_st w i j st) a)"
    by (intro Cons.IH) blast+
  with f show ?case by (simp add: p)
qed

lemma check_conjunctions_st_preserves:
  "preserves st (check_conjunctions_st w st)"
proof -
  let ?n = "length (st_objects st)"
  let ?st0 = "clear_risks [0..<?n] st"
  note c = clear_risks_fresh [of st "[0..<?n]"]
  have p0: "preserves st ?st0" and len: "length (st_objects ?st0) = ?n"
    using c by simp_all
  have fresh: "risk_lists_fresh (next_addr st) ?st0"
    using c by (simp add: risk_lists_fresh_def)
  have N: "next_addr st \<le> next_addr ?st0"
    and A: "st_alerts ?st0 = st_alerts st \<or> next_addr st \<le> st_alerts ?st0"
    using p0 by (simp_all add: preserves_def)
  have run: "check_conjunctions_st w st = fold (\<lambda>(i, j). check_pair_st w i j) (pairs ?n) ?st0"
    by (simp add: check_conjunctions_st_def Let_def fold_nested pairs_def)
  have "\<forall>p\<in>set (pairs ?n). fst p < length (st_objects ?st0) \<and> snd p < length (st_objects ?st0)"
    by (auto simp: set_pairs len)
  from check_pairs_st_frame [OF N A fresh this, of w] p0 show ?thesis
    unfolding run preserves_def by auto
qed

lemma update_st_preserves:
  assumes "update_st w dt st = Inr (st', objs, als)"
  shows "preserves st st'"
proof -
  from assms obtain st1 where u: "update_positions_st w dt [0..<length (st_objects st)] st = Inr st1"
    and s': "st' = check_conjunctions_st w st1"
    by (auto simp: update_st_def Let_def split: sum.splits)
  from update_positions_st_preserves [OF u] check_conjunctions_st_preserves [of st1 w]
  show ?thesis unfolding s' by (blast intro: preserves_trans)
qed

lemma ticks_st_preserves:
  assumes "ticks_st w dts st = Inr st'"
  shows "preserves st st'"
  using assms
proof (induction dts arbitrary: st)
  case Nil
  then show ?case by (simp add: preserves_refl)
next
  case (Cons dt dts)
  from Cons.prems obtain st1 objs als where u: "update_st w dt st = Inr (st1, objs, als)"
    and t: "ticks_st w dts st1 = Inr st'"
    by (auto split: sum.splits)
  from update_st_preserves [OF u] Cons.IH [OF t] show ?case
    by (rule preserves_trans)
qed

lemma generate_alert_st_old_list:
  assumes "st_alerts st < next_addr st"
  shows "alerts_at (generate_alert_st w oa ob d t st) (st_alerts st) =
     alerts_at st (st_alerts st) @
       [\<lparr>alert_id = int (length (alerts_at st (st_alerts st))) + 1,
         timestamp = Isoformat (clock w (st_now_calls st)),
         severity = ''high'',
         message = Potential_collision (ref_name oa) (ref_name ob) d t,
         object_ids = [ref_id oa, ref_id ob]\<rparr>]"
  using assms by (simp add: generate_alert_st_def now_st_def alloc_def Let_def alerts_at_def)

lemma generate_alert_st_live_log:
  assumes "st_alerts st < next_addr st"
    and "alerts s = alerts_at st (st_alerts st)" "now_calls s = st_now_calls st"
  shows "alerts_at (generate_alert_st w oa ob d t st) (st_alerts (generate_alert_st w oa ob d t st)) =
     alerts (generate_alert w (deref st oa) (deref st ob) d t s)"
  using assms
  by (simp add: generate_alert_st_def generate_alert_def now_st_def now_def alloc_def Let_def
      alerts_at_def deref_def)

lemma snapshot_lists_stable:
  assumes "well_formed st" "ticks_st w dts st = Inr st'" "snap \<in> set (get_objects_st st)"
  shows "floats_at st' (sref_position snap) = floats_at st (sref_position snap) \<and>
         risks_at st' (sref_risk_objects snap) = risks_at st (sref_risk_objects snap)"
proof -
  from assms(3) obtain obj where obj: "obj \<in> set (st_objects st)" "snap = serialize_ref obj"
    by (auto simp: get_objects_st_def)
  with assms(1) have a: "ref_position obj < next_addr st" "ref_position obj \<noteq> st_alerts st"
    "ref_risk_objects obj < next_addr st" "ref_risk_objects obj \<noteq> st_alerts st"
    by (auto simp: well_formed_def)
  from ticks_st_preserves [OF assms(2)] a have
    "store st' (ref_position obj) = store st (ref_position obj)"
    "store st' (ref_risk_objects obj) = store st (ref_risk_objects obj)"
    by (simp_all add: preserves_def)
  then show ?thesis
    by (simp add: obj(2) serialize_ref_def floats_at_def risks_at_def)
qed

text \<open>
  Claim C9 does not hold as stated: nothing is copied but the dicts of \<open>get_objects\<close>.
  What holds: \<open>get_alerts\<close> returns the live alert list itself, and the dicts of
  \<open>get_objects\<close> hold the live position and risk lists; the alert appended by
  \<open>_generate_alert\<close> shows in the list that \<open>get_alerts\<close> returned before, and a write to
  the returned list is a write to the live log. In a well-formed state, the position and
  risk lists that \<open>get_objects\<close> returned are not written by any number of later
  \<open>update\<close> calls, which bind the keys to new lists.
\<close>

theorem readers_get_live_lists:
  "get_alerts_st st = st_alerts st \<and>
   map sref_position (get_objects_st st) = map ref_position (st_objects st) \<and>
   map sref_risk_objects (get_objects_st st) = map ref_risk_objects (st_objects st) \<and>
   (st_alerts st < next_addr st \<longrightarrow>
      alerts_at (generate_alert_st w oa ob d t st) (get_alerts_st st) =
        alerts_at st (get_alerts_st st) @
          [\<lparr>alert_id = int (length (alerts_at st (st_alerts st))) + 1,
            timestamp = Isoformat (clock w (st_now_calls st)),
            severity = ''high'',
            message = Potential_collision (ref_name oa) (ref_name ob) d t,
            object_ids = [ref_id oa, ref_id ob]\<rparr>]) \<and>
   alerts_at (st\<lparr>store := (store st)(get_alerts_st st \<mapsto> Alerts xs)\<rparr>) (st_alerts st) = xs \<and>
   (well_formed st \<and> ticks_st w dts st = Inr st' \<longrightarrow>
      (\<forall>snap\<in>set (get_objects_st st).
         floats_at st' (sref_position snap) = floats_at st (sref_position snap) \<and>
         risks_at st' (sref_risk_objects snap) = risks_at st (sref_risk_objects snap)))"
  using generate_alert_st_old_list [of st w oa ob d t] snapshot_lists_stable [of st w dts st']
  by (simp add: get_alerts_st_def get_objects_st_def serialize_ref_def comp_def alerts_at_def)

text \<open>
  The list returned by \<open>get_alerts\<close> is empty when returned and has one entry after
  \<open>_generate_alert\<close>; writing \<open>[0, 0, 0]\<close> to the position list of a returned dict changes
  the position of the live object.
\<close>

theorem readers_get_live_lists_counterexample:
  "alerts_at example_store (get_alerts_st example_store) = [] \<and>
   length (alerts_at (generate_alert_st quiet_world example_ref example_ref 0 0.1 example_store)
             (get_alerts_st example_store)) = 1 \<and>
   alerts_at (example_store\<lparr>store := (store example_store)
                 (get_alerts_st example_store \<mapsto> Alerts [])\<rparr>) (st_alerts example_store) = [] \<and>
   floats_at (example_store\<lparr>store := (store example_store)
                 (sref_position (hd (get_objects_st example_store)) \<mapsto> Floats [0, 0, 0])\<rparr>)
     (ref_position (hd (st_objects example_store))) = [0, 0, 0] \<and>
   floats_at example_store (ref_position (hd (st_objects example_store))) = [6779, 0, 0]"
  by (simp add: example_store_def example_ref_def get_alerts_st_def get_objects_st_def
      serialize_ref_def alerts_at_def floats_at_def generate_alert_st_def now_st_def alloc_def
      Let_def)

lemma update_st_single:
  assumes "st_objects st = [obj]" "on_orbit (deref st obj)"
  shows "\<exists>st'. update_st w dt st = Inr (st', get_objects_st st', get_alerts_st st')"
proof -
  from update_position_on_orbit [OF assms(2), of "gauss w (st_gauss_calls st)" dt]
  obtain obj' where "update_position (gauss w (st_gauss_calls st)) (deref st obj) dt = Inr obj'"
    by blast
  then show ?thesis
    by (simp add: update_st_def assms(1) update_position_st_def alloc_def now_st_def Let_def)
qed

theorem readers_get_live_lists_witness:
  "well_formed example_store \<and>
   (\<exists>st'. ticks_st quiet_world [60] example_store = Inr st' \<and>
      floats_at st' (sref_position (hd (get_objects_st example_store))) = [6779, 0, 0]) \<and>
   alerts_at (generate_alert_st quiet_world example_ref example_ref 0 0.1 example_store)
     (get_alerts_st example_store) \<noteq> alerts_at example_store (get_alerts_st example_store)"
proof -
  have wf: "well_formed example_store"
    by (simp add: well_formed_def example_store_def example_ref_def)
  have "magnitude [6779, 0, 0] = \<bar>6779\<bar>"
    using magnitude_sphere [of 6779 "pi / 2" 0] by simp
  then have "on_orbit (deref example_store example_ref)"
    by (simp add: on_orbit_def deref_def example_store_def example_ref_def floats_at_def
        EARTH_RADIUS_def)
  from update_st_single [OF _ this, of quiet_world 60] obtain st' where
    "update_st quiet_world 60 example_store = Inr (st', get_objects_st st', get_alerts_st st')"
    by (auto simp: example_store_def)
  then have t: "ticks_st quiet_world [60] example_store = Inr st'" by simp
  have snap: "hd (get_objects_st example_store) \<in> set (get_objects_st example_store)"
    by (simp add: get_objects_st_def example_store_def)
  have old: "floats_at example_store (sref_position (hd (get_objects_st example_store))) = [6779, 0, 0]"
    by (simp add: get_objects_st_def example_store_def serialize_ref_def example_ref_def
        floats_at_def)
  have al: "st_alerts example_store < next_addr example_store"
    by (simp add: example_store_def)
  note main = readers_get_live_lists [of example_store quiet_world example_ref example_ref 0 "0.1"
      "[]" "[60]" st']
  from main wf t snap have
    "floats_at st' (sref_position (hd (get_objects_st example_store))) =
     floats_at example_store (sref_position (hd (get_objects_st example_store)))"
    by blast
  with old have 1: "floats_at st' (sref_position (hd (get_objects_st example_store))) = [6779, 0, 0]"
    by simp
  from main al have "\<exists>al. alerts_at
      (generate_alert_st quiet_world example_ref example_ref 0 0.1 example_store)
      (get_alerts_st example_store) = alerts_at example_store (get_alerts_st example_store) @ [al]"
    by blast
  then have 2: "alerts_at (generate_alert_st quiet_world example_ref example_ref 0 0.1 example_store)
     (get_alerts_st example_store) \<noteq> alerts_at example_store (get_alerts_st example_store)"
    by auto
  from wf t 1 2 show ?thesis by blast
qed

section \<open>The built-in catalog\<close>

text \<open>
  The distance of two points is at least the difference of their distances from the centre, so
  two objects on orbits of different altitude are never closer than the altitude gap.
\<close>

lemma cauchy3:
  fixes x1 y1 z1 x2 y2 z2 :: real
  shows "(x1 * x2 + y1 * y2 + z1 * z2)\<^sup>2 \<le> (x1\<^sup>2 + y1\<^sup>2 + z1\<^sup>2) * (x2\<^sup>2 + y2\<^sup>2 + z2\<^sup>2)"
proof -
  have "(x1\<^sup>2 + y1\<^sup>2 + z1\<^sup>2) * (x2\<^sup>2 + y2\<^sup>2 + z2\<^sup>2) - (x1 * x2 + y1 * y2 + z1 * z2)\<^sup>2
      = (x1 * y2 - x2 * y1)\<^sup>2 + (x1 * z2 - x2 * z1)\<^sup>2 + (y1 * z2 - y2 * z1)\<^sup>2"
    by (simp add: power2_eq_square algebra_simps)
  moreover have "0 \<le> (x1 * y2 - x2 * y1)\<^sup>2 + (x1 * z2 - x2 * z1)\<^sup>2 + (y1 * z2 - y2 * z1)\<^sup>2"
    by simp
  ultimately show ?thesis by linarith
qed

lemma distance_lower_bound:
  fixes x1 y1 z1 x2 y2 z2 :: real
  shows "\<bar>magnitude [x1, y1, z1] - magnitude [x2, y2, z2]\<bar> \<le>
     calculate_distance [x1, y1, z1] [x2, y2, z2]"
proof -
  let ?a = "x1\<^sup>2 + y1\<^sup>2 + z1\<^sup>2" and ?b = "x2\<^sup>2 + y2\<^sup>2 + z2\<^sup>2"
  let ?dot = "x1 * x2 + y1 * y2 + z1 * z2"
  let ?d2 = "(x1 - x2)\<^sup>2 + (y1 - y2)\<^sup>2 + (z1 - z2)\<^sup>2"
  have a: "0 \<le> ?a" and b: "0 \<le> ?b" by simp_all
  have m1: "magnitude [x1, y1, z1] = sqrt ?a" and m2: "magnitude [x2, y2, z2] = sqrt ?b"
    by (simp_all add: magnitude_def add.assoc)
  have d: "calculate_distance [x1, y1, z1] [x2, y2, z2] = sqrt ?d2"
    by (simp add: calculate_distance_def add.assoc)
  have "?dot \<le> \<bar>?dot\<bar>" by simp
  also have "\<bar>?dot\<bar> = sqrt (?dot\<^sup>2)" by simp
  also have "\<dots> \<le> sqrt (?a * ?b)" using cauchy3 by (rule real_sqrt_le_mono)
  also have "\<dots> = sqrt ?a * sqrt ?b" by (rule real_sqrt_mult)
  finally have dot: "?dot \<le> sqrt ?a * sqrt ?b" .
  have "(sqrt ?a - sqrt ?b)\<^sup>2 = ?a + ?b - 2 * (sqrt ?a * sqrt ?b)"
    using a b by (simp add: power2_diff)
  also have "\<dots> \<le> ?a + ?b - 2 * ?dot" using dot by simp
  also have "\<dots> = ?d2" by (simp add: power2_eq_square algebra_simps)
  finally have "(sqrt ?a - sqrt ?b)\<^sup>2 \<le> ?d2" .
  then have "sqrt ((sqrt ?a - sqrt ?b)\<^sup>2) \<le> sqrt ?d2" by (rule real_sqrt_le_mono)
  then show ?thesis by (simp add: m1 m2 d)
qed

lemma on_orbit_distance:
  assumes "on_orbit a" "on_orbit b"
  shows "\<bar>altitude a - altitude b\<bar> \<le> calculate_distance (position a) (position b)"
proof -
  from assms obtain x1 y1 z1 x2 y2 z2 where
    p: "position a = [x1, y1, z1]" "position b = [x2, y2, z2]"
    using length3 unfolding on_orbit_def by metis
  from assms have "magnitude (position a) - magnitude (position b) = altitude a - altitude b"
    by (simp add: on_orbit_def)
  with distance_lower_bound [of x1 y1 z1 x2 y2 z2] show ?thesis
    by (simp add: p)
qed

lemma far_not_high_risk:
  assumes "on_orbit a" "on_orbit b"
    and "2 * (\<bar>velocity a - velocity b\<bar> + 0.001) \<le> \<bar>altitude a - altitude b\<bar>"
  shows "\<not> high_risk a b"
proof -
  let ?d = "calculate_distance (position a) (position b)"
  let ?v = "\<bar>velocity a - velocity b\<bar> + 0.001"
  have v: "0 < ?v" by simp
  have "2 * ?v \<le> ?d" using on_orbit_distance [OF assms(1,2)] assms(3) by simp
  then have "2 \<le> ?d / ?v" using v by (simp add: pos_le_divide_eq)
  then have "\<not> max 0.1 (?d / ?v) < 2" by simp
  then show ?thesis
    by (simp add: high_risk_def pair_entry_def Let_def calculate_risk_level_def)
qed

lemma update_positions_orbit_fields:
  assumes "update_positions w dt ks s = Inr s'"
  shows "map orbit_fields (space_objects s') = map orbit_fields (space_objects s)"
  using assms
proof (induction ks arbitrary: s)
  case Nil
  then show ?case by simp
next
  case (Cons k ks)
  from Cons.prems obtain obj where
    u: "update_position (gauss w (gauss_calls s)) (space_objects s ! k) dt = Inr obj"
    by (auto split: sum.splits)
  let ?s1 = "s\<lparr>space_objects := (space_objects s)[k := obj\<lparr>last_update := clock w (now_calls s)\<rparr>],
              gauss_calls := Suc (gauss_calls s), now_calls := Suc (now_calls s)\<rparr>"
  have "obj = (space_objects s ! k)\<lparr>position := position obj\<rparr>"
    by (rule update_position_only_position [OF u])
  then have "orbit_fields (obj\<lparr>last_update := clock w (now_calls s)\<rparr>) =
      orbit_fields (space_objects s ! k)"
    by (metis (no_types, lifting) orbit_fields_def space_object.select_convs(5,8)
        space_object.surjective space_object.update_convs(7,9))
  then have "map orbit_fields (space_objects ?s1) = map orbit_fields (space_objects s)"
    by (simp add: map_update_keep)
  moreover have "map orbit_fields (space_objects s') = map orbit_fields (space_objects ?s1)"
    using Cons.prems by (intro Cons.IH) (simp only: update_positions_Cons [OF u])
  ultimately show ?case by simp
qed

lemma check_conjunctions_orbit_fields:
  "map orbit_fields (space_objects (check_conjunctions w s)) =
   map orbit_fields (space_objects s)"
proof -
  have "map orbit_fields (map without_risk xs) = map orbit_fields xs" for xs
    by (simp add: orbit_fields_def)
  then show ?thesis
    by (metis check_conjunctions_without_risk)
qed

lemma calm_cong:
  assumes "map orbit_fields objs' = map orbit_fields objs" "list_all on_orbit objs'" "calm objs"
  shows "calm objs'"
proof -
  have len: "length objs' = length objs"
    using assms(1) by (rule map_eq_imp_length_eq)
  have f: "altitude (objs' ! k) = altitude (objs ! k) \<and> velocity (objs' ! k) = velocity (objs ! k)"
    if "k < length objs" for k
  proof -
    have "orbit_fields (objs' ! k) = orbit_fields (objs ! k)"
      using assms(1) that len by (metis nth_map)
    then show ?thesis by (simp add: orbit_fields_def)
  qed
  show ?thesis
    unfolding calm_def
  proof (intro conjI allI impI)
    show "list_all on_orbit objs'" by fact
  next
    fix i j assume ij: "i < j \<and> j < length objs'"
    then have "i < length objs" "j < length objs" using len by simp_all
    with f [of i] f [of j] assms(3) ij len
    show "2 * (\<bar>velocity (objs' ! i) - velocity (objs' ! j)\<bar> + 0.001) \<le>
        \<bar>altitude (objs' ! i) - altitude (objs' ! j)\<bar>"
      by (simp add: calm_def)
  qed
qed

lemma calm_update:
  assumes "calm (space_objects s)"
  shows "\<exists>s' objs als. update w dt s = Inr (s', objs, als) \<and> calm (space_objects s')"
proof -
  from assms have o: "list_all on_orbit (space_objects s)" by (simp add: calm_def)
  from update_on_orbit [OF o, of w dt] obtain s' objs als where
    u: "update w dt s = Inr (s', objs, als)" and o': "list_all on_orbit (space_objects s')"
    by blast
  from u update_cases [of w dt s] obtain s1 where
    u1: "update_positions w dt [0..<length (space_objects s)] s = Inr s1"
    and s': "s' = check_conjunctions w s1" by auto
  have "map orbit_fields (space_objects s') = map orbit_fields (space_objects s)"
    unfolding s' using update_positions_orbit_fields [OF u1]
    by (simp add: check_conjunctions_orbit_fields)
  from calm_cong [OF this o' assms] u show ?thesis by blast
qed

lemma calm_without_risk: "calm objs \<Longrightarrow> calm (map without_risk objs)"
  by (rule calm_cong [where objs = objs])
     (simp_all add: calm_def orbit_fields_def list_all_iff)

lemma calm_no_pair_events:
  assumes "calm (space_objects s)"
    and "\<forall>p\<in>set ps. fst p < snd p \<and> snd p < length (space_objects s)"
  shows "pair_events w ps s = []"
  using assms
proof (induction ps arbitrary: s)
  case Nil
  then show ?case by simp
next
  case (Cons p ps)
  obtain i j where p: "p = (i, j)" by (cases p)
  have ij: "i < j" "j < length (space_objects s)" using Cons.prems(2) p by auto
  have oi: "on_orbit (space_objects s ! i)" and oj: "on_orbit (space_objects s ! j)"
    using Cons.prems(1) ij by (simp_all add: calm_def list_all_length)
  have "\<not> high_risk (space_objects s ! i) (space_objects s ! j)"
    using far_not_high_risk [OF oi oj] Cons.prems(1) ij by (simp add: calm_def)
  moreover have "calm (space_objects (check_pair w i j s))"
  proof (rule calm_cong [where objs = "space_objects s"])
    have "map orbit_fields (map without_risk xs) = map orbit_fields xs" for xs
      by (simp add: orbit_fields_def)
    then show "map orbit_fields (space_objects (check_pair w i j s)) =
        map orbit_fields (space_objects s)"
      by (metis check_pair_without_risk)
    have "list_all on_orbit (map without_risk xs) = list_all on_orbit xs" for xs
      by (simp add: list_all_iff)
    then show "list_all on_orbit (space_objects (check_pair w i j s))"
      using Cons.prems(1) by (metis check_pair_without_risk calm_def)
  qed (fact Cons.prems(1))
  moreover have "\<forall>p\<in>set ps. fst p < snd p \<and> snd p < length (space_objects (check_pair w i j s))"
    using Cons.prems(2) by simp
  ultimately show ?case
    using Cons.IH [of "check_pair w i j s"] by (simp add: p)
qed

lemma calm_no_tick_events:
  assumes "calm (space_objects s)"
  shows "tick_events w dt s = []"
proof (cases "update_positions w dt [0..<length (space_objects s)] s")
  case (Inl e)
  then show ?thesis by (simp add: tick_events_def)
next
  case (Inr s1)
  from assms have o: "list_all on_orbit (space_objects s)" by (simp add: calm_def)
  from update_positions_on_orbit [OF o, of "[0..<length (space_objects s)]" w dt] Inr
  have o1: "list_all on_orbit (space_objects s1)" by auto
  have "calm (space_objects s1)"
    by (rule calm_cong [OF update_positions_orbit_fields [OF Inr] o1 assms])
  then have c0: "calm (map without_risk (space_objects s1))" by (rule calm_without_risk)
  let ?s0 = "s1\<lparr>space_objects := map without_risk (space_objects s1)\<rparr>"
  have "pair_events w (pairs (length (space_objects s1))) ?s0 = []"
    using c0 by (intro calm_no_pair_events) (auto simp: set_pairs)
  then show ?thesis by (simp add: tick_events_def Inr)
qed

lemma calm_ticks:
  assumes "calm (space_objects s)"
  shows "\<exists>s'. ticks w dts s = Inr s' \<and> run_events w dts s = []"
  using assms
proof (induction dts arbitrary: s)
  case Nil
  then show ?case by simp
next
  case (Cons dt dts)
  from calm_update [OF Cons.prems, of w dt] obtain s1 objs als where
    u: "update w dt s = Inr (s1, objs, als)" and c: "calm (space_objects s1)" by blast
  from Cons.IH [OF c] calm_no_tick_events [OF Cons.prems, of w dt] show ?case
    by (simp add: u)
qed

lemma calm_init: "calm (space_objects (init w))"
  unfolding calm_def
proof (intro conjI allI impI)
  show "list_all on_orbit (space_objects (init w))" by (rule init_on_orbit)
next
  fix i j :: nat
  assume ij: "i < j \<and> j < length (space_objects (init w))"
  have len: "length (space_objects (init w)) = 3" by (simp add: init_def)
  from ij len have "(i = 0 \<and> j = 1) \<or> (i = 0 \<and> j = 2) \<or> (i = 1 \<and> j = 2)"
    by auto
  then show "2 * (\<bar>velocity (space_objects (init w) ! i) - velocity (space_objects (init w) ! j)\<bar> + 0.001) \<le>
        \<bar>altitude (space_objects (init w) ! i) - altitude (space_objects (init w) ! j)\<bar>"
    by (elim disjE conjE) (simp_all add: init_def)
qed

text \<open>
  The catalog that \<open>__init__\<close> builds (altitudes 408, 385 and 420 km, speeds 7.66,
  7.7 and 7.62 km/s) never produces an alert: whatever the random positions, the perturbations,
  the clock and the time steps, every sequence of \<open>update\<close> calls succeeds and leaves
  \<open>alerts\<close> empty. The altitudes differ by at least 12 km and the speeds by at most
  0.08 km/s, so the time to conjunction of every pair stays above 2 and no pair is ever rated
  \<open>High\<close>.
\<close>

theorem builtin_catalog_never_alerts:
  "\<exists>s'. ticks w dts (init w) = Inr s' \<and> alerts s' = []"
proof -
  from calm_ticks [OF calm_init, of w dts] obtain s' where
    t: "ticks w dts (init w) = Inr s'" and e: "run_events w dts (init w) = []" by blast
  from run_events_log [OF t] e have "alerts s' = []" by (simp add: init_def)
  with t show ?thesis by blast
qed

end
